theory Spec2Isabelle
  imports Main
begin

section \<open>The tables of database.py\<close>

text \<open>
  One record per table of \<^verbatim>\<open>init_db\<close>, one field per column. INTEGER columns are
  \<open>int\<close>, TEXT columns are \<open>string\<close>, a column without NOT NULL is an \<open>option\<close>.
  The REAL columns (\<^verbatim>\<open>price\<close>, \<^verbatim>\<open>total_amount\<close>, \<^verbatim>\<open>price_at_purchase\<close>) hold values
  of a type \<open>'p\<close> that is left open: the arithmetic on it is a parameter (see
  \<open>amount_ops\<close>), so nothing proved below depends on how sums and products of
  prices are rounded.
\<close>

record user_row =
  u_id :: int
  u_username :: string
  u_password_hash :: string

record 'p product_row =
  p_id :: int
  p_title :: string
  p_author :: "string option"
  p_genre :: "string option"
  p_price :: 'p
  p_stock :: int
  p_description :: "string option"
  p_image_url :: "string option"
  p_year_published :: "int option"
  p_isbn :: "string option"

record cart_item_row =
  ci_id :: int
  ci_user_id :: int
  ci_product_id :: int
  ci_quantity :: int

record 'p order_row =
  o_id :: int
  o_user_id :: int
  o_order_date :: string
  o_total_amount :: 'p
  o_status :: string

record 'p order_item_row =
  oi_id :: int
  oi_order_id :: int
  oi_product_id :: int
  oi_quantity :: int
  oi_price_at_purchase :: 'p

record message_row =
  m_id :: int
  m_user_id :: int
  m_sender :: string
  m_text :: string
  m_timestamp :: string

text \<open>
  The database file. Each table is the list of its rows in rowid order. The tables
  \<^verbatim>\<open>orders\<close> and \<^verbatim>\<open>order_items\<close> are declared AUTOINCREMENT, so SQLite keeps for each
  the largest rowid ever handed out (its internal table \<^verbatim>\<open>sqlite_sequence\<close>); these two
  counters are part of the file and are rolled back with it.
\<close>

record 'p database =
  users :: "user_row list"
  products :: "'p product_row list"
  cart_items :: "cart_item_row list"
  orders :: "'p order_row list"
  order_items :: "'p order_item_row list"
  messages :: "message_row list"
  seq_orders :: int
  seq_order_items :: int

text \<open>
  The uniqueness constraints of the schema that \<^verbatim>\<open>place_order\<close> relies on:
  \<^verbatim>\<open>products.id\<close> is the primary key and \<^verbatim>\<open>cart_items\<close> is declared
  \<^verbatim>\<open>UNIQUE(user_id, product_id)\<close>.
\<close>

definition schema_ok :: "'p database \<Rightarrow> bool" where
  "schema_ok db \<longleftrightarrow>
     distinct (map p_id (products db)) \<and>
     distinct (map (\<lambda>ci. (ci_user_id ci, ci_product_id ci)) (cart_items db))"

definition stock_nonneg :: "'p database \<Rightarrow> bool" where
  "stock_nonneg db \<longleftrightarrow> list_all (\<lambda>p. 0 \<le> p_stock p) (products db)"

text \<open>The stock of the product with a given id, if there is such a product.\<close>

definition stock_of :: "'p database \<Rightarrow> int \<Rightarrow> int option" where
  "stock_of db pid = map_of (map (\<lambda>p. (p_id p, p_stock p)) (products db)) pid"

text \<open>The rows of \<^verbatim>\<open>cart_items\<close> that belong to a user.\<close>

definition user_cart :: "'p database \<Rightarrow> int \<Rightarrow> cart_item_row list" where
  "user_cart db uid = filter (\<lambda>ci. ci_user_id ci = uid) (cart_items db)"

section \<open>The connection: sqlite3 with implicit transactions\<close>

text \<open>
  \<^verbatim>\<open>get_db_connection\<close> opens a connection with the default isolation level: the first
  INSERT, UPDATE or DELETE opens a transaction, a SELECT does not. \<open>txn\<close> is the
  uncommitted state of the open transaction (\<open>None\<close> when none is open), \<open>disk\<close> is what
  is committed. Closing a connection discards whatever was not committed.
\<close>

record 'p connection =
  disk :: "'p database"
  txn :: "'p database option"

definition get_db_connection :: "'p database \<Rightarrow> 'p connection" where
  "get_db_connection db = \<lparr>disk = db, txn = None\<rparr>"

definition snapshot :: "'p connection \<Rightarrow> 'p database" where
  "snapshot c = (case txn c of None \<Rightarrow> disk c | Some w \<Rightarrow> w)"

definition execute_write :: "('p database \<Rightarrow> 'p database) \<Rightarrow> 'p connection \<Rightarrow> 'p connection" where
  "execute_write stmt c = c\<lparr>txn := Some (stmt (snapshot c))\<rparr>"

definition commit :: "'p connection \<Rightarrow> 'p connection" where
  "commit c = \<lparr>disk = snapshot c, txn = None\<rparr>"

definition rollback :: "'p connection \<Rightarrow> 'p connection" where
  "rollback c = c\<lparr>txn := None\<rparr>"

definition close :: "'p connection \<Rightarrow> 'p database" where
  "close c = disk c"

section \<open>The statements of place\_order\<close>

text \<open>
  A row of the SELECT at routes.py:307, the join of the caller's cart with the
  catalogue: \<^verbatim>\<open>ci.product_id, ci.quantity, p.price, p.stock\<close>.

  The query has no ORDER BY. SQLite finds the caller's rows of \<^verbatim>\<open>cart_items\<close> through
  the index of \<^verbatim>\<open>UNIQUE(user_id, product_id)\<close>, so for one user the rows come in
  ascending \<^verbatim>\<open>product_id\<close>, whatever the order in which they were added to the cart.
  The loops of \<^verbatim>\<open>place_order\<close> visit them in that order.
\<close>

record 'p cart_line =
  cl_product_id :: int
  cl_quantity :: int
  cl_price :: 'p
  cl_stock :: int

definition join_row :: "cart_item_row \<Rightarrow> 'p product_row \<Rightarrow> 'p cart_line" where
  "join_row ci p =
     \<lparr>cl_product_id = ci_product_id ci, cl_quantity = ci_quantity ci,
      cl_price = p_price p, cl_stock = p_stock p\<rparr>"

definition select_cart :: "'p database \<Rightarrow> int \<Rightarrow> 'p cart_line list" where
  "select_cart db uid =
     concat (map (\<lambda>ci. map (join_row ci)
                          (filter (\<lambda>p. p_id p = ci_product_id ci) (products db)))
                 (sort_key ci_product_id (user_cart db uid)))"

text \<open>
  The rowid an AUTOINCREMENT table gives to a new row: one more than the largest rowid
  the table holds or has ever held.
\<close>

definition next_rowid :: "int \<Rightarrow> int list \<Rightarrow> int" where
  "next_rowid seq ids = max seq (foldr max ids 0) + 1"

definition new_order_id :: "'p database \<Rightarrow> int" where
  "new_order_id db = next_rowid (seq_orders db) (map o_id (orders db))"

text \<open>
  \<^verbatim>\<open>INSERT INTO orders (user_id, total_amount, status) VALUES (?, ?, 'pending')\<close>;
  \<^verbatim>\<open>order_date\<close> takes its default, the current time \<open>now\<close>. \<^verbatim>\<open>cursor.lastrowid\<close> is
  then \<open>new_order_id\<close> of the state before the statement.
\<close>

definition insert_order :: "int \<Rightarrow> 'p \<Rightarrow> string \<Rightarrow> 'p database \<Rightarrow> 'p database" where
  "insert_order uid total_amount now db =
     db\<lparr>orders := orders db @
            [\<lparr>o_id = new_order_id db, o_user_id = uid, o_order_date = now,
              o_total_amount = total_amount, o_status = ''pending''\<rparr>],
        seq_orders := new_order_id db\<rparr>"

definition new_order_item_id :: "'p database \<Rightarrow> int" where
  "new_order_item_id db = next_rowid (seq_order_items db) (map oi_id (order_items db))"

definition insert_order_item :: "int \<Rightarrow> 'p cart_line \<Rightarrow> 'p database \<Rightarrow> 'p database" where
  "insert_order_item order_id item db =
     db\<lparr>order_items := order_items db @
            [\<lparr>oi_id = new_order_item_id db, oi_order_id = order_id,
              oi_product_id = cl_product_id item, oi_quantity = cl_quantity item,
              oi_price_at_purchase = cl_price item\<rparr>],
        seq_order_items := new_order_item_id db\<rparr>"

text \<open>\<^verbatim>\<open>UPDATE products SET stock = stock - ? WHERE id = ?\<close>\<close>

definition update_stock :: "int \<Rightarrow> int \<Rightarrow> 'p database \<Rightarrow> 'p database" where
  "update_stock qty pid db =
     db\<lparr>products := map (\<lambda>p. if p_id p = pid then p\<lparr>p_stock := p_stock p - qty\<rparr> else p)
                        (products db)\<rparr>"

text \<open>\<^verbatim>\<open>DELETE FROM cart_items WHERE user_id = ?\<close>\<close>

definition delete_cart :: "int \<Rightarrow> 'p database \<Rightarrow> 'p database" where
  "delete_cart uid db = db\<lparr>cart_items := filter (\<lambda>ci. ci_user_id ci \<noteq> uid) (cart_items db)\<rparr>"

section \<open>place\_order\<close>

text \<open>
  The arithmetic of the total: \<^verbatim>\<open>total_amount = 0\<close>, then
  \<^verbatim>\<open>total_amount += item['quantity'] * item['price']\<close>.
\<close>

record 'p amount_ops =
  amt_zero :: 'p
  amt_add :: "'p \<Rightarrow> 'p \<Rightarrow> 'p"
  amt_mul :: "int \<Rightarrow> 'p \<Rightarrow> 'p"

text \<open>
  The four responses of the handler. The text of the storage error (\<^verbatim>\<open>str(e)\<close>) is not
  modelled.
\<close>

datatype 'p response =
    OrderPlaced int 'p
  | CartEmpty
  | NotEnoughStock int int
  | DatabaseError

fun status_code :: "'p response \<Rightarrow> nat" where
  "status_code (OrderPlaced order_id total_amount) = 201"
| "status_code CartEmpty = 400"
| "status_code (NotEnoughStock pid available) = 400"
| "status_code DatabaseError = 500"

fun is_placed :: "'p response \<Rightarrow> bool" where
  "is_placed (OrderPlaced order_id total_amount) = True"
| "is_placed r = False"

text \<open>
  The loop at routes.py:319. \<open>Inl (product_id, stock)\<close> is the early return of the first
  line that asks for more than is in stock, \<open>Inr\<close> the total once every line has passed.
\<close>

fun check_stock :: "'p amount_ops \<Rightarrow> 'p cart_line list \<Rightarrow> 'p \<Rightarrow> (int \<times> int) + 'p" where
  "check_stock A [] total_amount = Inr total_amount"
| "check_stock A (item # items) total_amount =
     (if cl_quantity item > cl_stock item then Inl (cl_product_id item, cl_stock item)
      else check_stock A items (amt_add A total_amount (amt_mul A (cl_quantity item) (cl_price item))))"

text \<open>
  Storage failures. The calls of \<^verbatim>\<open>cursor.execute\<close> and \<^verbatim>\<open>conn.commit\<close> of one
  invocation are numbered in the order they are made: 0 the SELECT, 1 the INSERT of the
  order, then for each cart line an INSERT and an UPDATE, then the DELETE, then the
  commit. \<open>fails k\<close> says that call \<open>k\<close> raises \<^verbatim>\<open>sqlite3.Error\<close>. In the functions of
  the \<^verbatim>\<open>try\<close> block \<open>Inl c\<close> is that exception, raised with the connection in state \<open>c\<close>.

  The loop at routes.py:331, whose first call has number \<open>k\<close>:
\<close>

fun write_items ::
  "(nat \<Rightarrow> bool) \<Rightarrow> nat \<Rightarrow> int \<Rightarrow> 'p cart_line list \<Rightarrow> 'p connection \<Rightarrow> 'p connection + 'p connection"
where
  "write_items fails k order_id [] c = Inr c"
| "write_items fails k order_id (item # items) c =
     (if fails k then Inl c
      else let c1 = execute_write (insert_order_item order_id item) c in
        if fails (k + 1) then Inl c1
        else write_items fails (k + 2) order_id items
               (execute_write (update_stock (cl_quantity item) (cl_product_id item)) c1))"

text \<open>The \<^verbatim>\<open>try\<close> block from routes.py:316 on, given the rows the SELECT returned.\<close>

definition place_order_finish ::
  "'p amount_ops \<Rightarrow> (nat \<Rightarrow> bool) \<Rightarrow> string \<Rightarrow> int \<Rightarrow> 'p cart_line list \<Rightarrow> 'p connection
     \<Rightarrow> 'p connection + ('p response \<times> 'p connection)"
where
  "place_order_finish A fails now current_user_id cart c =
     (if cart = [] then Inr (CartEmpty, c)
      else case check_stock A cart (amt_zero A) of
        Inl (pid, available) \<Rightarrow> Inr (NotEnoughStock pid available, rollback c)
      | Inr total_amount \<Rightarrow>
          if fails 1 then Inl c
          else
            let order_id = new_order_id (snapshot c);
                c1 = execute_write (insert_order current_user_id total_amount now) c
            in (case write_items fails 2 order_id cart c1 of
                  Inl c2 \<Rightarrow> Inl c2
                | Inr c2 \<Rightarrow>
                    if fails (2 + 2 * length cart) then Inl c2
                    else
                      let c3 = execute_write (delete_cart current_user_id) c2 in
                      if fails (3 + 2 * length cart) then Inl c3
                      else Inr (OrderPlaced order_id total_amount, commit c3)))"

text \<open>The whole \<^verbatim>\<open>try\<close> block: the SELECT, then the rest.\<close>

definition place_order_try ::
  "'p amount_ops \<Rightarrow> (nat \<Rightarrow> bool) \<Rightarrow> string \<Rightarrow> int \<Rightarrow> 'p connection
     \<Rightarrow> 'p connection + ('p response \<times> 'p connection)"
where
  "place_order_try A fails now current_user_id c =
     (if fails 0 then Inl c
      else place_order_finish A fails now current_user_id
             (select_cart (snapshot c) current_user_id) c)"

text \<open>
  The handler: a connection of its own, the \<^verbatim>\<open>try\<close> block, \<^verbatim>\<open>except sqlite3.Error\<close>
  with its rollback, and \<^verbatim>\<open>finally: conn.close()\<close>. The result is the response and the
  database file the call leaves behind.

  What is outside the model: \<^verbatim>\<open>conn.rollback()\<close> and \<^verbatim>\<open>conn.close()\<close> are taken not to
  raise, and exceptions other than \<^verbatim>\<open>sqlite3.Error\<close> do not occur (the columns hold
  values of their declared types). The connection never turns foreign keys on, so the
  FOREIGN KEY clauses of the schema are not enforced and no INSERT of \<^verbatim>\<open>place_order\<close>
  can violate a constraint. Row ids stay below the 64-bit limit.
\<close>

definition place_order ::
  "'p amount_ops \<Rightarrow> (nat \<Rightarrow> bool) \<Rightarrow> string \<Rightarrow> int \<Rightarrow> 'p database \<Rightarrow> 'p response \<times> 'p database"
where
  "place_order A fails now current_user_id db =
     (case place_order_try A fails now current_user_id (get_db_connection db) of
        Inl c \<Rightarrow> (DatabaseError, close (rollback c))
      | Inr (resp, c) \<Rightarrow> (resp, close c))"

text \<open>
  The handler from routes.py:316 on, for a connection that has just been opened on \<open>db\<close>
  and whose SELECT returned \<open>cart\<close>.
\<close>

definition place_order_after_select ::
  "'p amount_ops \<Rightarrow> (nat \<Rightarrow> bool) \<Rightarrow> string \<Rightarrow> int \<Rightarrow> 'p cart_line list \<Rightarrow> 'p database
     \<Rightarrow> 'p response \<times> 'p database"
where
  "place_order_after_select A fails now current_user_id cart db =
     (case place_order_finish A fails now current_user_id cart (get_db_connection db) of
        Inl c \<Rightarrow> (DatabaseError, close (rollback c))
      | Inr (resp, c) \<Rightarrow> (resp, close c))"

section \<open>Notions used to state the properties\<close>


text \<open>The values the INSERT at routes.py:332 supplies for a row of \<^verbatim>\<open>order_items\<close>.\<close>

definition order_item_values :: "'p order_item_row \<Rightarrow> int \<times> int \<times> int \<times> 'p" where
  "order_item_values oi =
     (oi_order_id oi, oi_product_id oi, oi_quantity oi, oi_price_at_purchase oi)"


text \<open>The effect of the loop at routes.py:331 on the database, when no call fails.\<close>

definition apply_items :: "int \<Rightarrow> 'p cart_line list \<Rightarrow> 'p database \<Rightarrow> 'p database" where
  "apply_items order_id items db =
     foldl (\<lambda>d item. update_stock (cl_quantity item) (cl_product_id item)
                        (insert_order_item order_id item d)) db items"

text \<open>The database a placement that goes through commits.\<close>

definition placed_db :: "int \<Rightarrow> 'p \<Rightarrow> string \<Rightarrow> 'p cart_line list \<Rightarrow> 'p database \<Rightarrow> 'p database" where
  "placed_db uid total_amount now cart db =
     delete_cart uid (apply_items (new_order_id db) cart (insert_order uid total_amount now db))"

text \<open>The quantity of a product that the lines of a cart ask for.\<close>

definition ordered_qty :: "'p cart_line list \<Rightarrow> int \<Rightarrow> int" where
  "ordered_qty cart pid = sum_list (map cl_quantity (filter (\<lambda>l. cl_product_id l = pid) cart))"

text \<open>
  The number of calls one invocation makes on its connection when the cart has \<open>n\<close>
  joined lines and nothing fails: the calls are numbered \<open>0\<close> to \<open>3 + 2 * n\<close>.
\<close>

definition no_failure :: "(nat \<Rightarrow> bool) \<Rightarrow> nat \<Rightarrow> bool" where
  "no_failure fails n \<longleftrightarrow> list_all (\<lambda>k. \<not> fails k) [0 ..< 4 + 2 * n]"

section \<open>Invocations that overlap\<close>

text \<open>
  Every request opens a connection of its own on the same file. The SELECT of
  \<^verbatim>\<open>place_order\<close> runs before the connection has written anything, so it is not part
  of the write transaction, which begins with the INSERT of the order and ends with the
  commit; SQLite lets one connection write at a time. An invocation is therefore two
  steps that the requests of other callers can come between: its SELECT, and everything
  from the check of the rows to the commit or rollback.
\<close>

record request =
  rq_user :: int
  rq_now :: string
  rq_fails :: "nat \<Rightarrow> bool"

datatype event = Select nat | Finish nat

record 'p world =
  w_db :: "'p database"
  w_fetched :: "(nat \<times> 'p cart_line list) list"
  w_responses :: "(nat \<times> 'p response) list"

definition initial_world :: "'p database \<Rightarrow> 'p world" where
  "initial_world db = \<lparr>w_db = db, w_fetched = [], w_responses = []\<rparr>"

fun step :: "'p amount_ops \<Rightarrow> request list \<Rightarrow> 'p world \<Rightarrow> event \<Rightarrow> 'p world" where
  "step A reqs w (Select i) =
     (if i < length reqs then
        (if rq_fails (reqs ! i) 0 then w\<lparr>w_responses := w_responses w @ [(i, DatabaseError)]\<rparr>
         else w\<lparr>w_fetched := (i, select_cart (w_db w) (rq_user (reqs ! i))) # w_fetched w\<rparr>)
      else w)"
| "step A reqs w (Finish i) =
     (if i < length reqs then
        (case map_of (w_fetched w) i of
           None \<Rightarrow> w
         | Some cart \<Rightarrow>
             (case place_order_after_select A (rq_fails (reqs ! i)) (rq_now (reqs ! i))
                     (rq_user (reqs ! i)) cart (w_db w) of
                (resp, db') \<Rightarrow> w\<lparr>w_db := db', w_responses := w_responses w @ [(i, resp)]\<rparr>))
      else w)"

definition run :: "'p amount_ops \<Rightarrow> request list \<Rightarrow> event list \<Rightarrow> 'p world \<Rightarrow> 'p world" where
  "run A reqs events w = foldl (step A reqs) w events"

text \<open>The schedule in which the first \<open>n\<close> requests are served one after the other.\<close>

definition serial_schedule :: "nat \<Rightarrow> event list" where
  "serial_schedule n = concat (map (\<lambda>i. [Select i, Finish i]) [0 ..< n])"

definition successes :: "'p world \<Rightarrow> nat" where
  "successes w = length (filter (\<lambda>(i, resp). is_placed resp) (w_responses w))"

text \<open>
  What holds between any two steps, whether or not invocations overlap, when at the
  start the product \<open>P\<close> has stock \<open>S\<close> and every requesting user's cart holds \<open>P\<close>
  alone, with quantity \<open>Q\<close>: a cart is as it was or has been cleared, the rows a
  request has fetched are those of such a cart, and the stock is \<open>S\<close> less \<open>Q\<close> for
  every order placed.
\<close>

definition stock_inv :: "request list \<Rightarrow> int \<Rightarrow> int \<Rightarrow> int \<Rightarrow> 'p world \<Rightarrow> bool" where
  "stock_inv reqs P Q S w \<longleftrightarrow>
     schema_ok (w_db w) \<and>
     (\<forall>r\<in>set reqs.
        user_cart (w_db w) (rq_user r) = [] \<or>
        map (\<lambda>ci. (ci_product_id ci, ci_quantity ci)) (user_cart (w_db w) (rq_user r))
          = [(P, Q)]) \<and>
     (\<forall>cart\<in>snd ` set (w_fetched w).
        cart = [] \<or> map (\<lambda>l. (cl_product_id l, cl_quantity l)) cart = [(P, Q)]) \<and>
     stock_of (w_db w) P = Some (S - int (successes w) * Q)"

text \<open>
  What holds in addition between two requests of a serial run, when \<open>k\<close> requests have
  been served.
\<close>

definition serial_inv ::
  "request list \<Rightarrow> int \<Rightarrow> int \<Rightarrow> int \<Rightarrow> nat \<Rightarrow> 'p world \<Rightarrow> bool" where
  "serial_inv reqs P Q S k w \<longleftrightarrow>
     stock_inv reqs P Q S w \<and>
     fst ` set (w_fetched w) \<subseteq> {..<k} \<and>
     0 \<le> S - int (successes w) * Q"

section \<open>Sample data\<close>

text \<open>
  Sample data for the concrete instances below: amounts in whole units with exact
  arithmetic, a catalogue of two books, and three users, of whom the first has a cart
  that can be served (he put the second book in it before the first), the second asks
  for more than is in stock and the third has no cart.
\<close>

definition exact_ops :: "int amount_ops" where
  "exact_ops = \<lparr>amt_zero = 0, amt_add = (\<lambda>a b. a + b), amt_mul = (\<lambda>q p. q * p)\<rparr>"

definition sample_product :: "int \<Rightarrow> int \<Rightarrow> int \<Rightarrow> int product_row" where
  "sample_product pid price stock =
     \<lparr>p_id = pid, p_title = ''Book'', p_author = None, p_genre = None, p_price = price,
      p_stock = stock, p_description = None, p_image_url = None, p_year_published = None,
      p_isbn = None\<rparr>"

definition sample_db :: "int database" where
  "sample_db =
     \<lparr>users = [\<lparr>u_id = 1, u_username = ''ann'', u_password_hash = ''h1''\<rparr>,
               \<lparr>u_id = 2, u_username = ''bob'', u_password_hash = ''h2''\<rparr>,
               \<lparr>u_id = 3, u_username = ''cy'', u_password_hash = ''h3''\<rparr>],
      products = [sample_product 1 10 5, sample_product 2 5 8],
      cart_items = [\<lparr>ci_id = 1, ci_user_id = 1, ci_product_id = 2, ci_quantity = 2\<rparr>,
                    \<lparr>ci_id = 2, ci_user_id = 1, ci_product_id = 1, ci_quantity = 3\<rparr>,
                    \<lparr>ci_id = 3, ci_user_id = 2, ci_product_id = 1, ci_quantity = 10\<rparr>],
      orders = [], order_items = [], messages = [],
      seq_orders = 0, seq_order_items = 0\<rparr>"

text \<open>
  A second sample: one book with five copies in stock, and two users who each have five
  copies of it in their cart.
\<close>

definition last_copies_db :: "int database" where
  "last_copies_db =
     \<lparr>users = [\<lparr>u_id = 1, u_username = ''ann'', u_password_hash = ''h1''\<rparr>,
               \<lparr>u_id = 2, u_username = ''bob'', u_password_hash = ''h2''\<rparr>],
      products = [sample_product 1 10 5],
      cart_items = [\<lparr>ci_id = 1, ci_user_id = 1, ci_product_id = 1, ci_quantity = 5\<rparr>,
                    \<lparr>ci_id = 2, ci_user_id = 2, ci_product_id = 1, ci_quantity = 5\<rparr>],
      orders = [], order_items = [], messages = [],
      seq_orders = 0, seq_order_items = 0\<rparr>"

text \<open>A connection on which no call raises, and the two requests of the second sample.\<close>

definition never_fails :: "nat \<Rightarrow> bool" where
  "never_fails k = False"

definition last_copies_requests :: "request list" where
  "last_copies_requests =
     [\<lparr>rq_user = 1, rq_now = ''2024-01-01 10:00:00'', rq_fails = never_fails\<rparr>,
      \<lparr>rq_user = 2, rq_now = ''2024-01-01 10:00:00'', rq_fails = never_fails\<rparr>]"

section \<open>The connection and the write loop\<close>

lemma snapshot_execute_write [simp]: "snapshot (execute_write stmt c) = stmt (snapshot c)"
  by (simp add: snapshot_def execute_write_def)

lemma disk_execute_write [simp]: "disk (execute_write stmt c) = disk c"
  by (simp add: execute_write_def)

lemma write_items_Inr:
  "write_items fails k oid items c = Inr c' \<Longrightarrow>
     disk c' = disk c \<and> snapshot c' = apply_items oid items (snapshot c)"
  by (induction items arbitrary: k c) (auto simp: apply_items_def Let_def split: if_splits)

lemma write_items_Inl:
  "write_items fails k oid items c = Inl c' \<Longrightarrow> disk c' = disk c"
  by (induction items arbitrary: k c) (auto simp: Let_def split: if_splits)

lemma write_items_no_failure:
  "\<forall>j. k \<le> j \<and> j < k + 2 * length items \<longrightarrow> \<not> fails j \<Longrightarrow>
     \<exists>c'. write_items fails k oid items c = Inr c'"
proof (induction items arbitrary: k c)
  case Nil
  show ?case by simp
next
  case (Cons item items)
  have a: "\<not> fails k" and b: "\<not> fails (k + 1)"
    using Cons.prems by auto
  have "\<forall>j. k + 2 \<le> j \<and> j < (k + 2) + 2 * length items \<longrightarrow> \<not> fails j"
    using Cons.prems by auto
  from Cons.IH [OF this] show ?case
    using a b by (simp add: Let_def)
qed

lemma write_items_failure:
  "k \<le> j \<Longrightarrow> j < k + 2 * length items \<Longrightarrow> fails j \<Longrightarrow>
     \<exists>c'. write_items fails k oid items c = Inl c'"
proof (induction items arbitrary: k c)
  case Nil
  then show ?case by simp
next
  case (Cons item items)
  show ?case
  proof (cases "fails k \<or> fails (k + 1)")
    case True
    then show ?thesis by (auto simp: Let_def)
  next
    case False
    then have "j \<noteq> k" "j \<noteq> k + 1" using Cons.prems(3) by auto
    then have "k + 2 \<le> j" "j < (k + 2) + 2 * length items"
      using Cons.prems by auto
    from Cons.IH [OF this Cons.prems(3)] show ?thesis
      using False by (simp add: Let_def)
  qed
qed

lemma snapshot_get_db_connection [simp]: "snapshot (get_db_connection db) = db"
  by (simp add: snapshot_def get_db_connection_def)

lemma disk_get_db_connection [simp]: "disk (get_db_connection db) = db"
  by (simp add: get_db_connection_def)

lemma close_rollback [simp]: "close (rollback c) = disk c"
  by (simp add: close_def rollback_def)

lemma close_commit [simp]: "close (commit c) = snapshot c"
  by (simp add: close_def commit_def)

lemma place_order_finish_Inl:
  "place_order_finish A fails now uid cart c = Inl c' \<Longrightarrow> disk c' = disk c"
  by (auto simp: place_order_finish_def Let_def split: if_splits sum.splits prod.splits
      dest!: write_items_Inr write_items_Inl)

lemma place_order_finish_Inr:
  "place_order_finish A fails now uid cart c = Inr (r, c') \<Longrightarrow>
     (\<not> is_placed r \<and> close c' = disk c) \<or>
     (\<exists>total_amount. cart \<noteq> [] \<and> check_stock A cart (amt_zero A) = Inr total_amount \<and>
        r = OrderPlaced (new_order_id (snapshot c)) total_amount \<and>
        close c' = placed_db uid total_amount now cart (snapshot c))"
  by (auto simp: place_order_finish_def Let_def placed_db_def
      split: if_splits sum.splits prod.splits
      dest!: write_items_Inr write_items_Inl) (simp_all add: close_def)

lemma place_order_cases:
  assumes "place_order A fails now uid db = (r, db')"
  shows "(\<not> is_placed r \<and> db' = db) \<or>
         (\<exists>total_amount. select_cart db uid \<noteq> [] \<and>
            check_stock A (select_cart db uid) (amt_zero A) = Inr total_amount \<and>
            r = OrderPlaced (new_order_id db) total_amount \<and>
            db' = placed_db uid total_amount now (select_cart db uid) db)"
proof (cases "place_order_try A fails now uid (get_db_connection db)")
  case (Inl c)
  then have "disk c = db"
    by (auto simp: place_order_try_def split: if_splits dest: place_order_finish_Inl)
  with Inl assms show ?thesis
    by (auto simp: place_order_def)
next
  case (Inr rc)
  obtain r0 c where rc: "rc = (r0, c)" by (cases rc)
  from Inr rc assms have eq: "r = r0" "db' = close c"
    by (auto simp: place_order_def)
  from Inr rc have "place_order_finish A fails now uid (select_cart db uid) (get_db_connection db) = Inr (r0, c)"
    by (auto simp: place_order_try_def split: if_splits)
  from place_order_finish_Inr [OF this] eq show ?thesis
    by auto
qed

section \<open>The effect of the statements\<close>

lemma update_stock_fields [simp]:
  "users (update_stock q pid db) = users db"
  "cart_items (update_stock q pid db) = cart_items db"
  "orders (update_stock q pid db) = orders db"
  "order_items (update_stock q pid db) = order_items db"
  "messages (update_stock q pid db) = messages db"
  "seq_orders (update_stock q pid db) = seq_orders db"
  "seq_order_items (update_stock q pid db) = seq_order_items db"
  by (simp_all add: update_stock_def)

lemma insert_order_item_fields [simp]:
  "users (insert_order_item oid item db) = users db"
  "products (insert_order_item oid item db) = products db"
  "cart_items (insert_order_item oid item db) = cart_items db"
  "orders (insert_order_item oid item db) = orders db"
  "messages (insert_order_item oid item db) = messages db"
  "seq_orders (insert_order_item oid item db) = seq_orders db"
  by (simp_all add: insert_order_item_def)

lemma insert_order_fields [simp]:
  "users (insert_order uid t now db) = users db"
  "products (insert_order uid t now db) = products db"
  "cart_items (insert_order uid t now db) = cart_items db"
  "order_items (insert_order uid t now db) = order_items db"
  "messages (insert_order uid t now db) = messages db"
  "seq_order_items (insert_order uid t now db) = seq_order_items db"
  by (simp_all add: insert_order_def)

lemma delete_cart_fields [simp]:
  "users (delete_cart uid db) = users db"
  "products (delete_cart uid db) = products db"
  "orders (delete_cart uid db) = orders db"
  "order_items (delete_cart uid db) = order_items db"
  "messages (delete_cart uid db) = messages db"
  "seq_orders (delete_cart uid db) = seq_orders db"
  "seq_order_items (delete_cart uid db) = seq_order_items db"
  by (simp_all add: delete_cart_def)

lemma apply_items_Nil [simp]: "apply_items oid [] db = db"
  by (simp add: apply_items_def)

lemma apply_items_Cons [simp]:
  "apply_items oid (item # items) db =
     apply_items oid items
       (update_stock (cl_quantity item) (cl_product_id item) (insert_order_item oid item db))"
  by (simp add: apply_items_def)

lemma apply_items_fields [simp]:
  "users (apply_items oid items db) = users db"
  "cart_items (apply_items oid items db) = cart_items db"
  "orders (apply_items oid items db) = orders db"
  "messages (apply_items oid items db) = messages db"
  "seq_orders (apply_items oid items db) = seq_orders db"
  by (induction items arbitrary: db; simp)+

lemma ordered_qty_Nil [simp]: "ordered_qty [] pid = 0"
  by (simp add: ordered_qty_def)

lemma ordered_qty_Cons [simp]:
  "ordered_qty (item # items) pid =
     (if cl_product_id item = pid then cl_quantity item else 0) + ordered_qty items pid"
  by (simp add: ordered_qty_def)

lemma products_update_stock:
  "products (update_stock q pid db) =
     map (\<lambda>p. if p_id p = pid then p\<lparr>p_stock := p_stock p - q\<rparr> else p) (products db)"
  by (simp add: update_stock_def)

lemma apply_items_products:
  "products (apply_items oid items db) =
     map (\<lambda>p. p\<lparr>p_stock := p_stock p - ordered_qty items (p_id p)\<rparr>) (products db)"
proof (induction items arbitrary: db)
  case Nil
  show ?case by (simp add: map_idI)
next
  case (Cons item items)
  show ?case
    by (simp add: Cons.IH products_update_stock o_def algebra_simps)
qed

lemma order_item_values_row [simp]:
  "order_item_values \<lparr>oi_id = i, oi_order_id = oid, oi_product_id = pid, oi_quantity = q,
                      oi_price_at_purchase = pr\<rparr> = (oid, pid, q, pr)"
  by (simp add: order_item_values_def)

lemma apply_items_order_items:
  "\<exists>new. order_items (apply_items oid items db) = order_items db @ new \<and>
         map order_item_values new =
           map (\<lambda>l. (oid, cl_product_id l, cl_quantity l, cl_price l)) items"
proof (induction items arbitrary: db)
  case Nil
  show ?case by simp
next
  case (Cons item items)
  let ?db1 = "update_stock (cl_quantity item) (cl_product_id item) (insert_order_item oid item db)"
  from Cons.IH [of ?db1] obtain new where
    new: "order_items (apply_items oid items ?db1) = order_items ?db1 @ new"
      "map order_item_values new = map (\<lambda>l. (oid, cl_product_id l, cl_quantity l, cl_price l)) items"
    by blast
  have "order_items ?db1 = order_items db @
      [\<lparr>oi_id = new_order_item_id db, oi_order_id = oid,
        oi_product_id = cl_product_id item, oi_quantity = cl_quantity item,
        oi_price_at_purchase = cl_price item\<rparr>]"
    by (simp add: insert_order_item_def)
  with new show ?case
    by simp
qed

lemma check_stock_Inr:
  "check_stock A cart t = Inr total_amount \<Longrightarrow>
     (\<forall>l\<in>set cart. cl_quantity l \<le> cl_stock l) \<and>
     total_amount = foldl (\<lambda>acc l. amt_add A acc (amt_mul A (cl_quantity l) (cl_price l))) t cart"
  by (induction cart arbitrary: t) (auto split: if_splits)

lemma check_stock_Inl:
  "check_stock A cart t = Inl (pid, available) \<Longrightarrow>
     \<exists>l\<in>set cart. cl_product_id l = pid \<and> cl_stock l = available \<and> cl_quantity l > cl_stock l"
  by (induction cart arbitrary: t) (auto split: if_splits)

lemma check_stock_passes:
  "\<forall>l\<in>set cart. cl_quantity l \<le> cl_stock l \<Longrightarrow> \<exists>total_amount. check_stock A cart t = Inr total_amount"
  by (induction cart arbitrary: t) auto

lemma check_stock_rejects:
  "\<exists>l\<in>set cart. cl_quantity l > cl_stock l \<Longrightarrow> \<exists>pid available. check_stock A cart t = Inl (pid, available)"
  by (induction cart arbitrary: t) auto

lemma set_select_cart:
  "set (select_cart db uid) =
     {join_row ci p | ci p. ci \<in> set (user_cart db uid) \<and> p \<in> set (products db) \<and>
                            p_id p = ci_product_id ci}"
  by (auto simp: select_cart_def)

lemma filter_id_le_one:
  "distinct (map p_id ps) \<Longrightarrow> length (filter (\<lambda>p. p_id p = k) ps) \<le> 1"
proof (induction ps)
  case Nil
  show ?case by simp
next
  case (Cons a ps)
  show ?case
  proof (cases "p_id a = k")
    case True
    from Cons.prems True have notin: "k \<notin> p_id ` set ps"
      by simp
    have "\<forall>x\<in>set ps. p_id x \<noteq> k"
    proof
      fix x
      assume "x \<in> set ps"
      then have "p_id x \<in> p_id ` set ps" by (rule imageI)
      with notin show "p_id x \<noteq> k" by auto
    qed
    then have "filter (\<lambda>p. p_id p = k) ps = []"
      by (simp add: filter_empty_conv)
    with True show ?thesis by simp
  next
    case False
    with Cons show ?thesis by simp
  qed
qed

lemma distinct_constant_map:
  "length xs \<le> 1 \<Longrightarrow> distinct (map (\<lambda>x. c) xs)"
  by (cases xs) auto

lemma distinct_user_cart_products:
  assumes "schema_ok db"
  shows "distinct (map ci_product_id (user_cart db uid))"
proof -
  have "distinct (map (\<lambda>ci. (ci_user_id ci, ci_product_id ci)) (user_cart db uid))"
    using assms by (simp add: schema_ok_def user_cart_def distinct_map_filter)
  then show ?thesis
    by (auto simp: distinct_map user_cart_def inj_on_def)
qed

lemma distinct_select_cart:
  assumes "schema_ok db"
  shows "distinct (map cl_product_id (select_cart db uid))"
proof -
  define g where "g = (\<lambda>ci::cart_item_row. map (\<lambda>p::'a product_row. ci_product_id ci)
                                (filter (\<lambda>p. p_id p = ci_product_id ci) (products db)))"
  have one: "distinct (g ci)" for ci
    unfolding g_def
    using assms filter_id_le_one [of "products db" "ci_product_id ci"]
    by (intro distinct_constant_map) (simp add: schema_ok_def)
  have ids: "set (g ci) \<subseteq> {ci_product_id ci}" for ci
    by (auto simp: g_def)
  have step: "distinct (map ci_product_id cis) \<Longrightarrow> distinct (concat (map g cis))" for cis
  proof (induction cis)
    case Nil
    show ?case by simp
  next
    case (Cons ci cis)
    have "set (concat (map g cis)) \<subseteq> ci_product_id ` set cis"
      using ids by auto
    with Cons one [of ci] ids [of ci] show ?case
      by auto
  qed
  have "map cl_product_id (select_cart db uid) =
          concat (map g (sort_key ci_product_id (user_cart db uid)))"
    by (simp add: select_cart_def map_concat o_def join_row_def g_def)
  moreover have "distinct (map ci_product_id (sort_key ci_product_id (user_cart db uid)))"
    using distinct_user_cart_products [OF assms, of uid] by (simp add: distinct_map)
  ultimately show ?thesis
    using step by simp
qed



lemma ordered_qty_absent:
  "pid \<notin> cl_product_id ` set cart \<Longrightarrow> ordered_qty cart pid = 0"
  by (induction cart) auto

lemma ordered_qty_distinct:
  "distinct (map cl_product_id cart) \<Longrightarrow> l \<in> set cart \<Longrightarrow>
     ordered_qty cart (cl_product_id l) = cl_quantity l"
proof (induction cart)
  case Nil
  then show ?case by simp
next
  case (Cons item cart)
  show ?case
  proof (cases "l = item")
    case True
    with Cons.prems show ?thesis
      by (simp add: ordered_qty_absent)
  next
    case False
    with Cons.prems have "l \<in> set cart" "cl_product_id item \<noteq> cl_product_id l"
      by auto
    with Cons show ?thesis by simp
  qed
qed

lemmas sample_defs = sample_db_def sample_product_def exact_ops_def select_cart_def user_cart_def
  join_row_def

section \<open>Rejections\<close>

lemma place_order_after_select_eq:
  "\<not> fails 0 \<Longrightarrow>
     place_order A fails now uid db =
       place_order_after_select A fails now uid (select_cart db uid) db"
  by (simp add: place_order_def place_order_after_select_def place_order_try_def)

text \<open>
  C6. When the SELECT does not raise and the join of the caller's cart with the
  catalogue has no rows, \<^verbatim>\<open>place_order\<close> answers with the empty-cart message and status
  400, the database is the one it was called on, and the connection is left as it was
  opened: no statement that writes has run on it.
\<close>

theorem empty_cart_rejected:
  assumes "\<not> fails 0" and "select_cart db uid = []"
  shows "place_order A fails now uid db = (CartEmpty, db) \<and>
         status_code (fst (place_order A fails now uid db)) = 400 \<and>
         place_order_try A fails now uid (get_db_connection db) =
           Inr (CartEmpty, get_db_connection db)"
  using assms
  by (simp add: place_order_def place_order_try_def place_order_finish_def close_def)

theorem empty_cart_rejected_witness:
  "\<not> (\<lambda>k. False) 0 \<and> select_cart sample_db 3 = [] \<and>
   place_order exact_ops (\<lambda>k. False) ''2024-01-01'' 3 sample_db = (CartEmpty, sample_db)"
proof -
  have h: "select_cart sample_db 3 = []"
    by (simp add: sample_defs)
  show ?thesis
    using h empty_cart_rejected [of "\<lambda>k. False" sample_db 3 exact_ops "''2024-01-01''"]
    by simp
qed

text \<open>
  C10. \<^verbatim>\<open>place_order\<close> never looks at the table \<^verbatim>\<open>users\<close>: for every identifier
  with no rows in \<^verbatim>\<open>cart_items\<close>, whether or not a user has it, the answer (when the
  SELECT does not raise) is the empty-cart message with status 400, and the database is
  unchanged. The response type has no user-not-found case. The concrete instance is an
  identifier that no row of \<^verbatim>\<open>users\<close> carries.
\<close>

theorem unknown_user_gets_empty_cart:
  assumes "\<not> fails 0" and "user_cart db uid = []"
  shows "place_order A fails now uid db = (CartEmpty, db) \<and>
         status_code (fst (place_order A fails now uid db)) = 400"
  using assms
  by (simp add: place_order_def place_order_try_def place_order_finish_def close_def
      select_cart_def)

theorem unknown_user_gets_empty_cart_witness:
  "7 \<notin> u_id ` set (users sample_db) \<and> user_cart sample_db 7 = [] \<and>
   place_order exact_ops (\<lambda>k. False) ''2024-01-01'' 7 sample_db = (CartEmpty, sample_db)"
proof -
  have h: "user_cart sample_db 7 = []"
    by (simp add: sample_defs)
  have u: "7 \<notin> u_id ` set (users sample_db)"
    by (simp add: sample_defs)
  show ?thesis
    using h u unknown_user_gets_empty_cart [of "\<lambda>k. False" sample_db 7 exact_ops "''2024-01-01''"]
    by simp
qed

text \<open>
  C5. When the SELECT does not raise and some joined line asks for more than its
  product's stock, \<^verbatim>\<open>place_order\<close> answers with status 400 and the not-enough-stock
  message, which names a product of the caller's cart whose requested quantity exceeds
  its stock and gives that product's stock; the database is unchanged.
\<close>

theorem insufficient_stock_rejected:
  assumes "\<not> fails 0" and "\<exists>l\<in>set (select_cart db uid). cl_quantity l > cl_stock l"
  shows "\<exists>pid available.
           place_order A fails now uid db = (NotEnoughStock pid available, db) \<and>
           status_code (fst (place_order A fails now uid db)) = 400 \<and>
           (\<exists>ci\<in>set (user_cart db uid). \<exists>p\<in>set (products db).
              ci_product_id ci = pid \<and> p_id p = pid \<and> p_stock p = available \<and>
              ci_quantity ci > available)"
proof -
  let ?cart = "select_cart db uid"
  from assms(2) have ne: "?cart \<noteq> []" by auto
  from check_stock_rejects [OF assms(2)] obtain pid available where
    chk: "check_stock A ?cart (amt_zero A) = Inl (pid, available)"
    by blast
  from check_stock_Inl [OF chk] obtain l where
    l: "l \<in> set ?cart" "cl_product_id l = pid" "cl_stock l = available" "cl_quantity l > cl_stock l"
    by blast
  from l(1) obtain ci p where
    cp: "l = join_row ci p" "ci \<in> set (user_cart db uid)" "p \<in> set (products db)"
        "p_id p = ci_product_id ci"
    by (auto simp: set_select_cart)
  have res: "place_order A fails now uid db = (NotEnoughStock pid available, db)"
    using assms(1) ne chk
    by (simp add: place_order_def place_order_try_def place_order_finish_def close_def
        rollback_def)
  have "ci_product_id ci = pid \<and> p_id p = pid \<and> p_stock p = available \<and> ci_quantity ci > available"
    using l cp by (simp add: join_row_def)
  with cp res show ?thesis
    by auto
qed

theorem insufficient_stock_rejected_witness:
  "\<not> (\<lambda>k. False) 0 \<and>
   (\<exists>l\<in>set (select_cart sample_db 2). cl_quantity l > cl_stock l) \<and>
   place_order exact_ops (\<lambda>k. False) ''2024-01-01'' 2 sample_db = (NotEnoughStock 1 5, sample_db)"
proof -
  have h: "\<exists>l\<in>set (select_cart sample_db 2). cl_quantity l > cl_stock l"
    by (simp add: sample_defs)
  have "place_order exact_ops (\<lambda>k. False) ''2024-01-01'' 2 sample_db = (NotEnoughStock 1 5, sample_db)"
    using insufficient_stock_rejected [OF _ h, of "\<lambda>k. False" exact_ops "''2024-01-01''"]
    by (auto simp: sample_defs)
  with h show ?thesis by simp
qed

section \<open>What a placement commits\<close>

lemma placed_db_fields [simp]:
  "users (placed_db uid t now cart db) = users db"
  "messages (placed_db uid t now cart db) = messages db"
  "cart_items (placed_db uid t now cart db) = filter (\<lambda>ci. ci_user_id ci \<noteq> uid) (cart_items db)"
  by (simp_all add: placed_db_def delete_cart_def)

lemma placed_db_products:
  "products (placed_db uid t now cart db) =
     map (\<lambda>p. p\<lparr>p_stock := p_stock p - ordered_qty cart (p_id p)\<rparr>) (products db)"
  by (simp add: placed_db_def apply_items_products)

lemma placed_db_orders:
  "orders (placed_db uid t now cart db) =
     orders db @ [\<lparr>o_id = new_order_id db, o_user_id = uid, o_order_date = now,
                   o_total_amount = t, o_status = ''pending''\<rparr>]"
  by (simp add: placed_db_def) (simp add: insert_order_def)

lemma placed_db_order_items:
  "\<exists>new. order_items (placed_db uid t now cart db) = order_items db @ new \<and>
         map order_item_values new =
           map (\<lambda>l. (new_order_id db, cl_product_id l, cl_quantity l, cl_price l)) cart"
  using apply_items_order_items [of "new_order_id db" cart "insert_order uid t now db"]
  by (simp add: placed_db_def)

lemma user_cart_placed_db:
  "user_cart (placed_db uid t now cart db) v = (if v = uid then [] else user_cart db v)"
  by (auto simp: user_cart_def filter_empty_conv intro: filter_cong)

lemma stock_of_map:
  "stock_of (db\<lparr>products := map (\<lambda>p. p\<lparr>p_stock := p_stock p - f (p_id p)\<rparr>) (products db)\<rparr>) pid =
     map_option (\<lambda>s. s - f pid) (stock_of db pid)"
proof -
  have "map_of (map (\<lambda>p. (p_id p, p_stock p)) (map (\<lambda>p. p\<lparr>p_stock := p_stock p - f (p_id p)\<rparr>) ps)) pid =
        map_option (\<lambda>s. s - f pid) (map_of (map (\<lambda>p. (p_id p, p_stock p)) ps) pid)"
    for ps :: "'a product_row list"
    by (induction ps) auto
  then show ?thesis
    by (simp add: stock_of_def)
qed

lemma stock_of_placed_db:
  "stock_of (placed_db uid t now cart db) pid =
     map_option (\<lambda>s. s - ordered_qty cart pid) (stock_of db pid)"
proof -
  have "stock_of (placed_db uid t now cart db) pid =
        stock_of (db\<lparr>products := products (placed_db uid t now cart db)\<rparr>) pid"
    by (simp add: stock_of_def)
  then show ?thesis
    by (simp only: placed_db_products stock_of_map)
qed

lemma no_failure_iff: "no_failure fails n \<longleftrightarrow> (\<forall>k < 4 + 2 * n. \<not> fails k)"
  by (auto simp: no_failure_def list_all_iff)

lemma place_order_finish_succeeds:
  assumes nf: "\<forall>k. 1 \<le> k \<and> k < 4 + 2 * length cart \<longrightarrow> \<not> fails k"
    and ne: "cart \<noteq> []"
    and chk: "check_stock A cart (amt_zero A) = Inr total_amount"
  shows "\<exists>c'. place_order_finish A fails now uid cart c =
                Inr (OrderPlaced (new_order_id (snapshot c)) total_amount, c')"
proof -
  let ?c1 = "execute_write (insert_order uid total_amount now) c"
  have "\<forall>j. 2 \<le> j \<and> j < 2 + 2 * length cart \<longrightarrow> \<not> fails j"
    using nf by auto
  from write_items_no_failure [OF this] obtain c2 where
    c2: "write_items fails 2 (new_order_id (snapshot c)) cart ?c1 = Inr c2"
    by blast
  have "\<not> fails 1" "\<not> fails (2 + 2 * length cart)" "\<not> fails (3 + 2 * length cart)"
    using nf by auto
  with ne chk c2 show ?thesis
    by (simp add: place_order_finish_def Let_def)
qed

lemma place_order_succeeds:
  assumes "no_failure fails (length (select_cart db uid))"
    and "select_cart db uid \<noteq> []"
    and "check_stock A (select_cart db uid) (amt_zero A) = Inr total_amount"
  shows "place_order A fails now uid db =
           (OrderPlaced (new_order_id db) total_amount,
            placed_db uid total_amount now (select_cart db uid) db)"
proof -
  let ?cart = "select_cart db uid"
  from assms(1) have f0: "\<not> fails 0"
    and nf: "\<forall>k. 1 \<le> k \<and> k < 4 + 2 * length ?cart \<longrightarrow> \<not> fails k"
    by (auto simp: no_failure_iff)
  from place_order_finish_succeeds [OF nf assms(2,3), where c = "get_db_connection db"
      and now = now and uid = uid]
  obtain c' where
    c': "place_order_finish A fails now uid ?cart (get_db_connection db) =
           Inr (OrderPlaced (new_order_id db) total_amount, c')"
    by auto
  then have r: "place_order A fails now uid db = (OrderPlaced (new_order_id db) total_amount, close c')"
    using f0 by (simp add: place_order_def place_order_try_def)
  from place_order_cases [OF r] show ?thesis
    using r assms(3) by auto
qed

lemma place_order_finish_raises:
  assumes ne: "cart \<noteq> []"
    and ok: "\<forall>l\<in>set cart. cl_quantity l \<le> cl_stock l"
    and k: "1 \<le> k" "k \<le> 3 + 2 * length cart" "fails k"
  shows "\<exists>c'. place_order_finish A fails now uid cart c = Inl c'"
proof -
  from check_stock_passes [OF ok] obtain total_amount where
    chk: "check_stock A cart (amt_zero A) = Inr total_amount"
    by blast
  let ?c1 = "execute_write (insert_order uid total_amount now) c"
  let ?w = "write_items fails 2 (new_order_id (snapshot c)) cart ?c1"
  show ?thesis
  proof (cases "fails 1")
    case True
    with ne chk show ?thesis
      by (simp add: place_order_finish_def)
  next
    case f1: False
    show ?thesis
    proof (cases ?w)
      case (Inl c2)
      with ne chk f1 show ?thesis
        by (simp add: place_order_finish_def Let_def)
    next
      case (Inr c2)
      have "\<not> (2 \<le> k \<and> k < 2 + 2 * length cart)"
      proof
        assume "2 \<le> k \<and> k < 2 + 2 * length cart"
        with write_items_failure [of 2 k cart fails "new_order_id (snapshot c)" ?c1] k(3)
        obtain c3 where "?w = Inl c3" by blast
        with Inr show False by simp
      qed
      with k f1 have "k = 2 + 2 * length cart \<or> k = 3 + 2 * length cart"
        by (cases "k = 1") auto
      with k(3) have "fails (2 + 2 * length cart) \<or> fails (3 + 2 * length cart)"
        by auto
      with ne chk f1 Inr show ?thesis
        by (auto simp: place_order_finish_def Let_def)
    qed
  qed
qed

section \<open>Atomicity and the cart\<close>

text \<open>
  C3. Take an invocation whose SELECT succeeds and whose cart is not empty and passes
  the stock check. If any later call on the connection raises \<^verbatim>\<open>sqlite3.Error\<close> (the
  INSERT of the order, an INSERT or UPDATE of the loop, the DELETE, numbered \<open>1\<close> to
  \<open>2 + 2 * n\<close> for \<open>n\<close> lines; or the commit itself, numbered \<open>3 + 2 * n\<close>), the caller
  gets the storage error with status 500 and the database, all tables and counters, is
  the one the call started from.
\<close>

theorem storage_failure_rolls_back:
  assumes "\<not> fails 0"
    and "select_cart db uid \<noteq> []"
    and "\<forall>l\<in>set (select_cart db uid). cl_quantity l \<le> cl_stock l"
    and "1 \<le> k" and "k \<le> 3 + 2 * length (select_cart db uid)" and "fails k"
  shows "place_order A fails now uid db = (DatabaseError, db) \<and>
         status_code (fst (place_order A fails now uid db)) = 500"
proof -
  from place_order_finish_raises [where cart = "select_cart db uid" and k = k and fails = fails
      and c = "get_db_connection db" and A = A and now = now and uid = uid] assms
  obtain c' where
    c': "place_order_finish A fails now uid (select_cart db uid) (get_db_connection db) = Inl c'"
    by blast
  from place_order_finish_Inl [OF c'] have "disk c' = db"
    by simp
  with c' assms(1) show ?thesis
    by (simp add: place_order_def place_order_try_def)
qed

theorem storage_failure_rolls_back_witness:
  "\<not> (\<lambda>k::nat. k = 4) 0 \<and> select_cart sample_db 1 \<noteq> [] \<and>
   list_all (\<lambda>l. cl_quantity l \<le> cl_stock l) (select_cart sample_db 1) \<and>
   (1::nat) \<le> 4 \<and> 4 \<le> 3 + 2 * length (select_cart sample_db 1) \<and> (\<lambda>k::nat. k = 4) 4 \<and>
   place_order exact_ops (\<lambda>k. k = 4) ''2024-01-01'' 1 sample_db = (DatabaseError, sample_db)"
proof -
  have h: "select_cart sample_db 1 \<noteq> []"
    "\<forall>l\<in>set (select_cart sample_db 1). cl_quantity l \<le> cl_stock l"
    "4 \<le> 3 + 2 * length (select_cart sample_db 1)"
    by (simp_all add: sample_defs)
  show ?thesis
    using h storage_failure_rolls_back [of "\<lambda>k. k = 4" sample_db 1 4 exact_ops "''2024-01-01''"]
    by (simp add: list_all_iff)
qed

text \<open>
  C7. After a call that placed the order the caller has no row left in \<^verbatim>\<open>cart_items\<close>,
  so the join that lists the cart is empty too; after a call that answered anything
  else the table \<^verbatim>\<open>cart_items\<close> is what it was.
\<close>

theorem cart_cleared_or_untouched:
  assumes "place_order A fails now uid db = (r, db')"
  shows "(is_placed r \<longrightarrow> user_cart db' uid = [] \<and> select_cart db' uid = []) \<and>
         (\<not> is_placed r \<longrightarrow> cart_items db' = cart_items db \<and>
                              user_cart db' uid = user_cart db uid)"
  using place_order_cases [OF assms]
  by (auto simp: user_cart_placed_db select_cart_def)

theorem cart_cleared_or_untouched_witness:
  "is_placed (fst (place_order exact_ops (\<lambda>k. False) ''2024-01-01'' 1 sample_db)) \<and>
   user_cart sample_db 1 \<noteq> [] \<and>
   user_cart (snd (place_order exact_ops (\<lambda>k. False) ''2024-01-01'' 1 sample_db)) 1 = []"
proof -
  obtain r db' where
    eq: "place_order exact_ops (\<lambda>k. False) ''2024-01-01'' 1 sample_db = (r, db')"
    by (cases "place_order exact_ops (\<lambda>k. False) ''2024-01-01'' 1 sample_db")
  have nf: "no_failure (\<lambda>k. False) (length (select_cart sample_db 1))"
    by (simp add: no_failure_iff)
  have chk: "check_stock exact_ops (select_cart sample_db 1) (amt_zero exact_ops) = Inr 40"
    by (simp add: sample_defs)
  have ne: "select_cart sample_db 1 \<noteq> []"
    by (simp add: sample_defs)
  have "is_placed r"
    using place_order_succeeds [OF nf ne chk, of "''2024-01-01''"] eq by auto
  moreover have "user_cart sample_db 1 \<noteq> []"
    by (simp add: sample_defs)
  ultimately show ?thesis
    using cart_cleared_or_untouched [OF eq] eq by simp
qed

section \<open>Stock\<close>

lemma product_of_line:
  assumes "schema_ok db" and "l \<in> set (select_cart db uid)"
    and "p \<in> set (products db)" and "p_id p = cl_product_id l"
  shows "cl_stock l = p_stock p"
proof -
  from assms(2) obtain ci p' where
    l: "l = join_row ci p'" "p' \<in> set (products db)" "p_id p' = ci_product_id ci"
    by (auto simp: set_select_cart)
  have "inj_on p_id (set (products db))"
    using assms(1) by (simp add: schema_ok_def distinct_map)
  moreover have "p_id p' = p_id p"
    using l assms(4) by (simp add: join_row_def)
  ultimately have "p' = p"
    using l(2) assms(3) by (auto dest: inj_onD)
  with l show ?thesis
    by (simp add: join_row_def)
qed

lemma stock_of_line:
  assumes "schema_ok db" and "l \<in> set (select_cart db uid)"
  shows "stock_of db (cl_product_id l) = Some (cl_stock l)"
proof -
  from assms(2) obtain ci p where
    l: "l = join_row ci p" "p \<in> set (products db)" "p_id p = ci_product_id ci"
    by (auto simp: set_select_cart)
  have "distinct (map fst (map (\<lambda>p. (p_id p, p_stock p)) (products db)))"
    using assms(1) by (simp add: schema_ok_def o_def)
  moreover have "(cl_product_id l, cl_stock l) \<in> set (map (\<lambda>p. (p_id p, p_stock p)) (products db))"
  proof -
    have "(\<lambda>p. (p_id p, p_stock p)) p \<in> (\<lambda>p. (p_id p, p_stock p)) ` set (products db)"
      using l(2) by (rule imageI)
    with l(1,3) show ?thesis
      by (simp add: join_row_def)
  qed
  ultimately show ?thesis
    unfolding stock_of_def by (rule map_of_is_SomeI)
qed

lemma ordered_qty_le_stock:
  assumes "schema_ok db" and "stock_nonneg db"
    and ok: "\<forall>l\<in>set (select_cart db uid). cl_quantity l \<le> cl_stock l"
    and p: "p \<in> set (products db)"
  shows "ordered_qty (select_cart db uid) (p_id p) \<le> p_stock p"
proof (cases "p_id p \<in> cl_product_id ` set (select_cart db uid)")
  case True
  then obtain l where l: "l \<in> set (select_cart db uid)" "p_id p = cl_product_id l"
    by auto
  have "ordered_qty (select_cart db uid) (cl_product_id l) = cl_quantity l"
    using distinct_select_cart [OF assms(1)] l(1) by (rule ordered_qty_distinct)
  moreover have "cl_stock l = p_stock p"
    using assms(1) l(1) p l(2) by (rule product_of_line)
  ultimately show ?thesis
    using ok l by auto
next
  case False
  then have "ordered_qty (select_cart db uid) (p_id p) = 0"
    by (rule ordered_qty_absent)
  moreover have "0 \<le> p_stock p"
    using assms(2) p by (simp add: stock_nonneg_def list_all_iff)
  ultimately show ?thesis by simp
qed

lemma ordered_qty_cart_row:
  assumes "schema_ok db" and "ci \<in> set (user_cart db uid)"
    and "stock_of db (ci_product_id ci) = Some s"
  shows "ordered_qty (select_cart db uid) (ci_product_id ci) = ci_quantity ci"
proof -
  from assms(3) obtain p where p: "p \<in> set (products db)" "p_id p = ci_product_id ci"
    by (auto simp: stock_of_def dest!: map_of_SomeD)
  then have "join_row ci p \<in> set (select_cart db uid)"
    using assms(2) by (auto simp: set_select_cart)
  with distinct_select_cart [OF assms(1)]
  have "ordered_qty (select_cart db uid) (cl_product_id (join_row ci p)) = cl_quantity (join_row ci p)"
    by (rule ordered_qty_distinct)
  then show ?thesis
    by (simp add: join_row_def)
qed

lemma sample_placement:
  "place_order exact_ops (\<lambda>k. False) ''2024-01-01'' 1 sample_db =
     (OrderPlaced 1 40, placed_db 1 40 ''2024-01-01'' (select_cart sample_db 1) sample_db)"
proof -
  have nf: "no_failure (\<lambda>k. False) (length (select_cart sample_db 1))"
    by (simp add: no_failure_iff)
  have chk: "check_stock exact_ops (select_cart sample_db 1) (amt_zero exact_ops) = Inr 40"
    by (simp add: sample_defs)
  have ne: "select_cart sample_db 1 \<noteq> []"
    by (simp add: sample_defs)
  have "new_order_id sample_db = 1"
    by (simp add: new_order_id_def next_rowid_def sample_db_def)
  with place_order_succeeds [OF nf ne chk, of "''2024-01-01''"] show ?thesis
    by simp
qed

lemma sample_schema_ok: "schema_ok sample_db"
  by (simp add: schema_ok_def sample_db_def sample_product_def)

lemma sample_stock_nonneg: "stock_nonneg sample_db"
  by (simp add: stock_nonneg_def sample_db_def sample_product_def)

text \<open>
  C2. In a database that meets the uniqueness constraints of the schema and in which no
  stock is negative, after one call of \<^verbatim>\<open>place_order\<close>, whatever its answer, no stock is
  negative; and after a call that placed the order, every product the caller had a cart
  row for has its stock lowered by exactly the quantity of that row.
\<close>

theorem stock_never_negative:
  assumes "schema_ok db" and "stock_nonneg db"
    and "place_order A fails now uid db = (r, db')"
  shows "stock_nonneg db' \<and>
         (is_placed r \<longrightarrow>
            (\<forall>ci\<in>set (user_cart db uid). \<forall>s. stock_of db (ci_product_id ci) = Some s \<longrightarrow>
               stock_of db' (ci_product_id ci) = Some (s - ci_quantity ci)))"
proof (cases "is_placed r")
  case False
  with place_order_cases [OF assms(3)] assms(2) show ?thesis
    by auto
next
  case True
  let ?cart = "select_cart db uid"
  from True place_order_cases [OF assms(3)] obtain total_amount where
    chk: "check_stock A ?cart (amt_zero A) = Inr total_amount"
    and db': "db' = placed_db uid total_amount now ?cart db"
    by auto
  from check_stock_Inr [OF chk] have ok: "\<forall>l\<in>set ?cart. cl_quantity l \<le> cl_stock l"
    by simp
  have "stock_nonneg db'"
    using ordered_qty_le_stock [OF assms(1,2) ok]
    by (simp add: db' stock_nonneg_def list_all_iff placed_db_products)
  moreover have "stock_of db' (ci_product_id ci) = Some (s - ci_quantity ci)"
    if "ci \<in> set (user_cart db uid)" and "stock_of db (ci_product_id ci) = Some s" for ci s
    using that ordered_qty_cart_row [OF assms(1) that]
    by (simp add: db' stock_of_placed_db)
  ultimately show ?thesis
    by blast
qed

theorem stock_never_negative_witness:
  "schema_ok sample_db \<and> stock_nonneg sample_db \<and>
   is_placed (fst (place_order exact_ops (\<lambda>k. False) ''2024-01-01'' 1 sample_db)) \<and>
   stock_nonneg (snd (place_order exact_ops (\<lambda>k. False) ''2024-01-01'' 1 sample_db)) \<and>
   stock_of sample_db 1 = Some 5 \<and>
   stock_of (snd (place_order exact_ops (\<lambda>k. False) ''2024-01-01'' 1 sample_db)) 1 = Some 2"
proof -
  have s: "stock_of sample_db 1 = Some 5"
    by (simp add: stock_of_def sample_db_def sample_product_def)
  have c: "\<lparr>ci_id = 2, ci_user_id = 1, ci_product_id = 1, ci_quantity = 3\<rparr>
             \<in> set (user_cart sample_db 1)"
    by (simp add: sample_defs)
  show ?thesis
    using stock_never_negative [OF sample_schema_ok sample_stock_nonneg sample_placement]
      sample_schema_ok sample_stock_nonneg s c
    by (auto simp: sample_placement)
qed

text \<open>
  C9. The check rejects a line only when its quantity is greater than the stock. So
  when no call on the connection fails and the cart has at least one joined line
  (without one the answer is the empty-cart message of C6), a cart whose every line asks
  for no more than is in stock is placed; and a product ordered at exactly its stock is
  left with stock 0.
\<close>

theorem order_at_full_stock_succeeds:
  assumes "schema_ok db"
    and "no_failure fails (length (select_cart db uid))"
    and "select_cart db uid \<noteq> []"
    and "\<forall>l\<in>set (select_cart db uid). cl_quantity l \<le> cl_stock l"
  shows "\<exists>order_id total_amount db'.
           place_order A fails now uid db = (OrderPlaced order_id total_amount, db') \<and>
           (\<forall>l\<in>set (select_cart db uid). cl_quantity l = cl_stock l \<longrightarrow>
              stock_of db' (cl_product_id l) = Some 0)"
proof -
  let ?cart = "select_cart db uid"
  from check_stock_passes [OF assms(4)] obtain total_amount where
    chk: "check_stock A ?cart (amt_zero A) = Inr total_amount"
    by blast
  let ?db' = "placed_db uid total_amount now ?cart db"
  have "stock_of ?db' (cl_product_id l) = Some 0"
    if "l \<in> set ?cart" and "cl_quantity l = cl_stock l" for l
    using that stock_of_line [OF assms(1) that(1)]
      ordered_qty_distinct [OF distinct_select_cart [OF assms(1)] that(1)]
    by (simp add: stock_of_placed_db)
  with place_order_succeeds [OF assms(2,3) chk] show ?thesis
    by blast
qed

lemmas last_copies_defs = last_copies_db_def sample_product_def exact_ops_def select_cart_def
  user_cart_def join_row_def

theorem order_at_full_stock_succeeds_witness:
  "schema_ok last_copies_db \<and>
   no_failure (\<lambda>k. False) (length (select_cart last_copies_db 1)) \<and>
   select_cart last_copies_db 1 \<noteq> [] \<and>
   list_all (\<lambda>l. cl_quantity l \<le> cl_stock l) (select_cart last_copies_db 1) \<and>
   (\<exists>order_id total_amount db'.
      place_order exact_ops (\<lambda>k. False) ''2024-01-01'' 1 last_copies_db =
        (OrderPlaced order_id total_amount, db') \<and>
      stock_of last_copies_db 1 = Some 5 \<and> stock_of db' 1 = Some 0)"
proof -
  have h1: "schema_ok last_copies_db"
    by (simp add: schema_ok_def last_copies_db_def sample_product_def)
  have h2: "no_failure (\<lambda>k. False) (length (select_cart last_copies_db 1))"
    by (simp add: no_failure_iff)
  have h3: "select_cart last_copies_db 1 \<noteq> []"
    by (simp add: last_copies_defs)
  have h4: "\<forall>l\<in>set (select_cart last_copies_db 1). cl_quantity l \<le> cl_stock l"
    by (simp add: last_copies_defs)
  have s: "stock_of last_copies_db 1 = Some 5"
    by (simp add: stock_of_def last_copies_db_def sample_product_def)
  have c: "select_cart last_copies_db 1 =
             [\<lparr>cl_product_id = 1, cl_quantity = 5, cl_price = 10, cl_stock = 5\<rparr>]"
    by (simp add: last_copies_defs)
  from order_at_full_stock_succeeds [OF h1 h2 h3 h4, of exact_ops "''2024-01-01''"]
  obtain order_id total_amount db' where
    "place_order exact_ops (\<lambda>k. False) ''2024-01-01'' 1 last_copies_db =
       (OrderPlaced order_id total_amount, db')"
    "\<forall>l\<in>set (select_cart last_copies_db 1). cl_quantity l = cl_stock l \<longrightarrow>
       stock_of db' (cl_product_id l) = Some 0"
    by blast
  then show ?thesis
    using h1 h2 h3 h4 s by (auto simp: c list_all_iff)
qed

section \<open>The order and its line items\<close>




section \<open>Side effects of a placement\<close>

lemma le_foldr_max: "x \<in> set ids \<Longrightarrow> x \<le> foldr max ids (0::int)"
  by (induction ids) auto

lemma new_order_id_fresh: "new_order_id db \<notin> o_id ` set (orders db)"
proof
  assume "new_order_id db \<in> o_id ` set (orders db)"
  then have "new_order_id db \<in> set (map o_id (orders db))"
    by simp
  then have "new_order_id db \<le> foldr max (map o_id (orders db)) 0"
    by (rule le_foldr_max)
  then show False
    by (simp add: new_order_id_def next_rowid_def)
qed

lemma order_ids_of_new_items:
  assumes "map order_item_values new =
             map (\<lambda>l. (oid, cl_product_id l, cl_quantity l, cl_price l)) cart"
  shows "length new = length cart \<and> (\<forall>oi\<in>set new. oi_order_id oi = oid)"
proof -
  have "length (map order_item_values new) = length cart"
    by (simp add: assms)
  then have len: "length new = length cart"
    by simp
  have "map fst (map order_item_values new) = map (\<lambda>l. oid) cart"
    by (simp add: assms o_def)
  then have "map oi_order_id new = map (\<lambda>l. oid) cart"
    by (simp add: o_def order_item_values_def)
  then have "set (map oi_order_id new) \<subseteq> {oid}"
    by auto
  with len show ?thesis
    by auto
qed

lemma line_products_in_cart:
  "cl_product_id ` set (select_cart db uid) \<subseteq> ci_product_id ` set (user_cart db uid)"
  by (auto simp: set_select_cart join_row_def)

text \<open>
  C8. A call of user \<open>uid\<close> that placed the order leaves \<^verbatim>\<open>users\<close> and \<^verbatim>\<open>messages\<close> as
  they were; adds to \<^verbatim>\<open>orders\<close> exactly one row, for \<open>uid\<close>, with status
  \<^verbatim>\<open>pending\<close> and an id that no order had; adds to \<^verbatim>\<open>order_items\<close> one row per line
  of the cart, all of that order; removes from \<^verbatim>\<open>cart_items\<close> the rows of \<open>uid\<close> and no
  other, so every other user's cart is as it was; and changes in \<^verbatim>\<open>products\<close> nothing
  but the stock, which it lowers by the quantity the cart asks for: prices are as they
  were, and a product that is in no cart row of \<open>uid\<close> is as it was.
\<close>

theorem placement_side_effects:
  assumes "place_order A fails now uid db = (OrderPlaced order_id total_amount, db')"
  shows "users db' = users db \<and> messages db' = messages db \<and>
         (\<exists>row. orders db' = orders db @ [row] \<and> o_id row = order_id \<and>
                 o_user_id row = uid \<and> o_status row = ''pending'') \<and>
         order_id \<notin> o_id ` set (orders db) \<and>
         (\<exists>new. order_items db' = order_items db @ new \<and>
                 length new = length (select_cart db uid) \<and>
                 (\<forall>oi\<in>set new. oi_order_id oi = order_id)) \<and>
         cart_items db' = filter (\<lambda>ci. ci_user_id ci \<noteq> uid) (cart_items db) \<and>
         (\<forall>u. u \<noteq> uid \<longrightarrow> user_cart db' u = user_cart db u) \<and>
         products db' =
           map (\<lambda>p. p\<lparr>p_stock := p_stock p - ordered_qty (select_cart db uid) (p_id p)\<rparr>)
             (products db) \<and>
         map p_price (products db') = map p_price (products db) \<and>
         (\<forall>i<length (products db).
            p_id (products db ! i) \<notin> ci_product_id ` set (user_cart db uid) \<longrightarrow>
            products db' ! i = products db ! i)"
proof -
  let ?cart = "select_cart db uid"
  from place_order_cases [OF assms] have
    oid: "order_id = new_order_id db"
    and db': "db' = placed_db uid total_amount now ?cart db"
    by auto
  have a: "users db' = users db \<and> messages db' = messages db"
    by (simp add: db')
  have b: "\<exists>row. orders db' = orders db @ [row] \<and> o_id row = order_id \<and>
                 o_user_id row = uid \<and> o_status row = ''pending''"
    by (simp add: db' oid placed_db_orders)
  have c: "order_id \<notin> o_id ` set (orders db)"
    unfolding oid by (rule new_order_id_fresh)
  from placed_db_order_items [of uid total_amount now ?cart db] obtain new where
    new: "order_items db' = order_items db @ new"
      "map order_item_values new =
         map (\<lambda>l. (order_id, cl_product_id l, cl_quantity l, cl_price l)) ?cart"
    unfolding db' oid by blast
  from order_ids_of_new_items [OF new(2)] new(1)
  have d: "\<exists>new. order_items db' = order_items db @ new \<and>
                 length new = length ?cart \<and> (\<forall>oi\<in>set new. oi_order_id oi = order_id)"
    by blast
  have e: "cart_items db' = filter (\<lambda>ci. ci_user_id ci \<noteq> uid) (cart_items db)"
    by (simp add: db')
  have f: "\<forall>u. u \<noteq> uid \<longrightarrow> user_cart db' u = user_cart db u"
    by (simp add: db' user_cart_placed_db)
  have g: "products db' =
           map (\<lambda>p. p\<lparr>p_stock := p_stock p - ordered_qty ?cart (p_id p)\<rparr>) (products db)"
    by (simp add: db' placed_db_products)
  have h: "map p_price (products db') = map p_price (products db)"
    by (simp add: g o_def)
  have i: "products db' ! i = products db ! i"
    if "i < length (products db)"
      and "p_id (products db ! i) \<notin> ci_product_id ` set (user_cart db uid)" for i
  proof -
    from that(2) line_products_in_cart [of db uid]
    have "p_id (products db ! i) \<notin> cl_product_id ` set ?cart"
      by blast
    then have "ordered_qty ?cart (p_id (products db ! i)) = 0"
      by (rule ordered_qty_absent)
    with that(1) show ?thesis
      by (simp add: g)
  qed
  from a b c d e f g h i show ?thesis
    by blast
qed

theorem placement_side_effects_witness:
  "place_order exact_ops (\<lambda>k. False) ''2024-01-01'' 1 sample_db =
     (OrderPlaced 1 40, placed_db 1 40 ''2024-01-01'' (select_cart sample_db 1) sample_db) \<and>
   user_cart (placed_db 1 40 ''2024-01-01'' (select_cart sample_db 1) sample_db) 2 =
     [\<lparr>ci_id = 3, ci_user_id = 2, ci_product_id = 1, ci_quantity = 10\<rparr>] \<and>
   map p_stock (products (placed_db 1 40 ''2024-01-01'' (select_cart sample_db 1) sample_db)) =
     [2, 6] \<and>
   map p_price (products (placed_db 1 40 ''2024-01-01'' (select_cart sample_db 1) sample_db)) =
     [10, 5]"
proof -
  let ?db' = "placed_db 1 40 ''2024-01-01'' (select_cart sample_db 1) sample_db"
  note fx = placement_side_effects [OF sample_placement]
  have cart: "user_cart ?db' 2 = user_cart sample_db 2"
    using fx by simp
  have prods: "products ?db' =
      map (\<lambda>p. p\<lparr>p_stock := p_stock p - ordered_qty (select_cart sample_db 1) (p_id p)\<rparr>)
        (products sample_db)"
    using fx by blast
  have "map p_stock (products ?db') = [2, 6]"
    unfolding prods by (simp add: sample_defs)
  moreover have "map p_price (products ?db') = [10, 5]"
    unfolding prods by (simp add: sample_defs)
  moreover have "user_cart sample_db 2 =
      [\<lparr>ci_id = 3, ci_user_id = 2, ci_product_id = 1, ci_quantity = 10\<rparr>]"
    by (simp add: sample_defs)
  ultimately show ?thesis
    using cart sample_placement by simp
qed

section \<open>Invocations one after the other, and invocations that overlap\<close>

lemma place_order_after_select_cases:
  assumes "place_order_after_select A fails now uid cart db = (r, db')"
  shows "(\<not> is_placed r \<and> db' = db) \<or>
         (\<exists>total_amount. cart \<noteq> [] \<and>
            check_stock A cart (amt_zero A) = Inr total_amount \<and>
            r = OrderPlaced (new_order_id db) total_amount \<and>
            db' = placed_db uid total_amount now cart db)"
proof (cases "place_order_finish A fails now uid cart (get_db_connection db)")
  case (Inl c)
  from place_order_finish_Inl [OF Inl] have "disk c = db"
    by simp
  with Inl assms show ?thesis
    by (auto simp: place_order_after_select_def)
next
  case (Inr rc)
  obtain r0 c where rc: "rc = (r0, c)" by (cases rc)
  from Inr rc assms have eq: "r = r0" "db' = close c"
    by (auto simp: place_order_after_select_def)
  from Inr rc have "place_order_finish A fails now uid cart (get_db_connection db) = Inr (r0, c)"
    by simp
  from place_order_finish_Inr [OF this] eq show ?thesis
    by auto
qed

lemma place_order_after_select_succeeds:
  assumes nf: "\<forall>k. 1 \<le> k \<and> k < 4 + 2 * length cart \<longrightarrow> \<not> fails k"
    and ne: "cart \<noteq> []"
    and chk: "check_stock A cart (amt_zero A) = Inr total_amount"
  shows "place_order_after_select A fails now uid cart db =
           (OrderPlaced (new_order_id db) total_amount, placed_db uid total_amount now cart db)"
proof -
  from place_order_finish_succeeds [OF nf ne chk, where c = "get_db_connection db"
      and now = now and uid = uid]
  obtain c' where
    c': "place_order_finish A fails now uid cart (get_db_connection db) =
           Inr (OrderPlaced (new_order_id db) total_amount, c')"
    by auto
  then have r: "place_order_after_select A fails now uid cart db =
                  (OrderPlaced (new_order_id db) total_amount, close c')"
    by (simp add: place_order_after_select_def)
  from place_order_after_select_cases [OF r] show ?thesis
    using r chk by auto
qed

lemma run_Nil: "run A reqs [] w = w"
  by (simp add: run_def)

lemma run_Cons: "run A reqs (e # es) w = run A reqs es (step A reqs w e)"
  by (simp add: run_def)

lemma run_append: "run A reqs (es @ es') w = run A reqs es' (run A reqs es w)"
  by (simp add: run_def)

lemma serial_schedule_Suc:
  "serial_schedule (Suc n) = serial_schedule n @ [Select n, Finish n]"
  by (simp add: serial_schedule_def)

lemma place_order_select_fails:
  "fails 0 \<Longrightarrow> place_order A fails now uid db = (DatabaseError, db)"
  by (simp add: place_order_def place_order_try_def)

text \<open>A request served without interruption is a call of \<open>place_order\<close>.\<close>

lemma serial_step:
  assumes "k < length reqs" and "map_of (w_fetched w) k = None"
  shows "w_db (run A reqs [Select k, Finish k] w) =
           snd (place_order A (rq_fails (reqs ! k)) (rq_now (reqs ! k)) (rq_user (reqs ! k)) (w_db w))"
    and "w_responses (run A reqs [Select k, Finish k] w) =
           w_responses w @
             [(k, fst (place_order A (rq_fails (reqs ! k)) (rq_now (reqs ! k))
                         (rq_user (reqs ! k)) (w_db w)))]"
    and "fst ` set (w_fetched (run A reqs [Select k, Finish k] w)) \<subseteq>
           insert k (fst ` set (w_fetched w))"
proof -
  let ?w' = "run A reqs [Select k, Finish k] w"
  let ?res = "place_order A (rq_fails (reqs ! k)) (rq_now (reqs ! k)) (rq_user (reqs ! k)) (w_db w)"
  have "w_db ?w' = snd ?res \<and> w_responses ?w' = w_responses w @ [(k, fst ?res)] \<and>
        fst ` set (w_fetched ?w') \<subseteq> insert k (fst ` set (w_fetched w))"
  proof (cases "rq_fails (reqs ! k) 0")
    case True
    with assms show ?thesis
      by (auto simp: run_Nil run_Cons place_order_select_fails)
  next
    case False
    with assms show ?thesis
      by (auto simp: run_Nil run_Cons place_order_after_select_eq split: prod.splits)
  qed
  then show "w_db ?w' = snd ?res"
    and "w_responses ?w' = w_responses w @ [(k, fst ?res)]"
    and "fst ` set (w_fetched ?w') \<subseteq> insert k (fst ` set (w_fetched w))"
    by simp_all
qed

lemma schema_ok_placed_db:
  "schema_ok db \<Longrightarrow> schema_ok (placed_db uid t now cart db)"
  by (simp add: schema_ok_def placed_db_products o_def distinct_map_filter)

lemma div_bound:
  fixes n S Q :: int
  assumes "0 < Q" and "0 \<le> S - n * Q"
  shows "n \<le> S div Q"
proof -
  have "n * Q \<le> S" using assms(2) by simp
  then have "(n * Q) div Q \<le> S div Q"
    using assms(1) by (intro zdiv_mono1) simp_all
  with assms(1) show ?thesis by simp
qed

lemma place_order_after_select_rejects:
  "cart \<noteq> [] \<Longrightarrow> check_stock A cart (amt_zero A) = Inl (pid, available) \<Longrightarrow>
     place_order_after_select A fails now uid cart db = (NotEnoughStock pid available, db)"
  by (simp add: place_order_after_select_def place_order_finish_def close_def rollback_def)

lemma last_copies_cart:
  "select_cart last_copies_db 1 =
     [\<lparr>cl_product_id = 1, cl_quantity = 5, cl_price = 10, cl_stock = 5\<rparr>]"
  "select_cart last_copies_db 2 =
     [\<lparr>cl_product_id = 1, cl_quantity = 5, cl_price = 10, cl_stock = 5\<rparr>]"
  by (simp_all add: last_copies_defs)

lemma last_copies_placed:
  "place_order_after_select exact_ops never_fails now uid
       [\<lparr>cl_product_id = 1, cl_quantity = 5, cl_price = 10, cl_stock = 5\<rparr>] db =
     (OrderPlaced (new_order_id db) 50,
      placed_db uid 50 now [\<lparr>cl_product_id = 1, cl_quantity = 5, cl_price = 10, cl_stock = 5\<rparr>] db)"
  by (rule place_order_after_select_succeeds) (simp_all add: never_fails_def exact_ops_def)

lemma last_copies_stock: "stock_of last_copies_db 1 = Some 5"
  by (simp add: stock_of_def last_copies_db_def sample_product_def)

text \<open>
  C1, as the specification states it, for invocations that overlap. One book has five
  copies in stock and two users each have five copies in their cart. Both requests run
  their SELECT before either writes: both read a stock of five, both pass the check, both
  orders are placed, and the stock ends at minus five. Two placements went through where
  \<open>5 div 5 = 1\<close> was the bound.
\<close>

theorem overlapping_placements_oversell:
  "user_cart last_copies_db 1 =
     [\<lparr>ci_id = 1, ci_user_id = 1, ci_product_id = 1, ci_quantity = 5\<rparr>] \<and>
   user_cart last_copies_db 2 =
     [\<lparr>ci_id = 2, ci_user_id = 2, ci_product_id = 1, ci_quantity = 5\<rparr>] \<and>
   stock_of last_copies_db 1 = Some 5 \<and>
   successes (run exact_ops last_copies_requests [Select 0, Select 1, Finish 0, Finish 1]
                (initial_world last_copies_db)) = 2 \<and>
   \<not> int (successes (run exact_ops last_copies_requests [Select 0, Select 1, Finish 0, Finish 1]
                        (initial_world last_copies_db))) \<le> 5 div 5 \<and>
   stock_of (w_db (run exact_ops last_copies_requests [Select 0, Select 1, Finish 0, Finish 1]
                     (initial_world last_copies_db))) 1 = Some (- 5)"
proof -
  let ?line = "\<lparr>cl_product_id = 1, cl_quantity = 5, cl_price = 10::int, cl_stock = 5\<rparr>"
  let ?now = "''2024-01-01 10:00:00''"
  let ?W = "run exact_ops last_copies_requests [Select 0, Select 1, Finish 0, Finish 1]
              (initial_world last_copies_db)"
  let ?db1 = "placed_db 1 50 ?now [?line] last_copies_db"
  let ?db2 = "placed_db 2 50 ?now [?line] ?db1"
  have W: "?W = \<lparr>w_db = ?db2,
                  w_fetched = [(1, [?line]), (0, [?line])],
                  w_responses = [(0, OrderPlaced (new_order_id last_copies_db) 50),
                                 (1, OrderPlaced (new_order_id ?db1) 50)]\<rparr>"
    by (simp add: run_Cons run_Nil initial_world_def last_copies_requests_def
        last_copies_cart last_copies_placed never_fails_def)
  have succ: "successes ?W = 2"
    unfolding W by (simp add: successes_def)
  have "stock_of ?db2 1 = Some (- 5)"
    by (simp add: stock_of_placed_db last_copies_stock)
  then have stock: "stock_of (w_db ?W) 1 = Some (- 5)"
    unfolding W by simp
  have carts: "user_cart last_copies_db 1 =
       [\<lparr>ci_id = 1, ci_user_id = 1, ci_product_id = 1, ci_quantity = 5\<rparr>]"
    "user_cart last_copies_db 2 =
       [\<lparr>ci_id = 2, ci_user_id = 2, ci_product_id = 1, ci_quantity = 5\<rparr>]"
    by (simp_all add: last_copies_defs)
  from carts last_copies_stock succ stock show ?thesis
    by simp
qed

lemma select_cart_single:
  assumes "schema_ok db"
    and "user_cart db u = [] \<or>
         map (\<lambda>ci. (ci_product_id ci, ci_quantity ci)) (user_cart db u) = [(P, Q)]"
  shows "select_cart db u = [] \<or>
         map (\<lambda>l. (cl_product_id l, cl_quantity l)) (select_cart db u) = [(P, Q)]"
proof (cases "user_cart db u = []")
  case True
  then show ?thesis
    by (simp add: select_cart_def)
next
  case False
  with assms(2) obtain ci where
    ci: "user_cart db u = [ci]" "ci_product_id ci = P" "ci_quantity ci = Q"
    by auto
  let ?ps = "filter (\<lambda>p. p_id p = P) (products db)"
  have sel: "select_cart db u = map (join_row ci) ?ps"
    by (simp add: select_cart_def ci)
  have "length ?ps \<le> 1"
    using assms(1) by (intro filter_id_le_one) (simp add: schema_ok_def)
  then have "?ps = [] \<or> (\<exists>p. ?ps = [p])"
    by (cases ?ps) auto
  then show ?thesis
    using ci by (auto simp: sel join_row_def)
qed

lemma ordered_qty_single:
  "map (\<lambda>l. (cl_product_id l, cl_quantity l)) cart = [(P, Q)] \<Longrightarrow> ordered_qty cart P = Q"
  by (cases cart) auto

lemma stock_inv_schema: "stock_inv reqs P Q S w \<Longrightarrow> schema_ok (w_db w)"
  by (simp add: stock_inv_def)

lemma stock_inv_stock:
  "stock_inv reqs P Q S w \<Longrightarrow> stock_of (w_db w) P = Some (S - int (successes w) * Q)"
  by (simp add: stock_inv_def)

lemma stock_inv_carts:
  assumes "stock_inv reqs P Q S w" and "r \<in> set reqs"
  shows "user_cart (w_db w) (rq_user r) = [] \<or>
     map (\<lambda>ci. (ci_product_id ci, ci_quantity ci)) (user_cart (w_db w) (rq_user r)) = [(P, Q)]"
proof -
  from assms(1) have "\<forall>r\<in>set reqs.
        user_cart (w_db w) (rq_user r) = [] \<or>
        map (\<lambda>ci. (ci_product_id ci, ci_quantity ci)) (user_cart (w_db w) (rq_user r))
          = [(P, Q)]"
    unfolding stock_inv_def by (elim conjE)
  then show ?thesis
    using assms(2) by (rule bspec)
qed

lemma stock_inv_fetched:
  assumes "stock_inv reqs P Q S w" and "(i, cart) \<in> set (w_fetched w)"
  shows "cart = [] \<or> map (\<lambda>l. (cl_product_id l, cl_quantity l)) cart = [(P, Q)]"
proof -
  from assms(1) have "\<forall>cart\<in>snd ` set (w_fetched w).
        cart = [] \<or> map (\<lambda>l. (cl_product_id l, cl_quantity l)) cart = [(P, Q)]"
    unfolding stock_inv_def by (elim conjE)
  moreover have "cart \<in> snd ` set (w_fetched w)"
    using assms(2) by (rule rev_image_eqI) simp
  ultimately show ?thesis
    by (rule bspec)
qed

lemma stock_invI:
  assumes "schema_ok (w_db w)"
    and "\<And>r. r \<in> set reqs \<Longrightarrow>
           user_cart (w_db w) (rq_user r) = [] \<or>
           map (\<lambda>ci. (ci_product_id ci, ci_quantity ci)) (user_cart (w_db w) (rq_user r))
             = [(P, Q)]"
    and "\<And>i cart. (i, cart) \<in> set (w_fetched w) \<Longrightarrow>
           cart = [] \<or> map (\<lambda>l. (cl_product_id l, cl_quantity l)) cart = [(P, Q)]"
    and "stock_of (w_db w) P = Some (S - int (successes w) * Q)"
  shows "stock_inv reqs P Q S w"
  unfolding stock_inv_def
proof (intro conjI ballI)
  show "schema_ok (w_db w)" by (rule assms(1))
next
  fix r assume "r \<in> set reqs"
  then show "user_cart (w_db w) (rq_user r) = [] \<or>
           map (\<lambda>ci. (ci_product_id ci, ci_quantity ci)) (user_cart (w_db w) (rq_user r))
             = [(P, Q)]"
    by (rule assms(2))
next
  fix cart assume "cart \<in> snd ` set (w_fetched w)"
  then obtain c where "c \<in> set (w_fetched w)" and "cart = snd c"
    by (rule imageE)
  then have "(fst c, cart) \<in> set (w_fetched w)"
    by simp
  then show "cart = [] \<or> map (\<lambda>l. (cl_product_id l, cl_quantity l)) cart = [(P, Q)]"
    by (rule assms(3))
next
  show "stock_of (w_db w) P = Some (S - int (successes w) * Q)" by (rule assms(4))
qed

lemma stock_inv_cong:
  assumes eq: "w_db w' = w_db w" "w_fetched w' = w_fetched w" "successes w' = successes w"
    and inv: "stock_inv reqs P Q S w"
  shows "stock_inv reqs P Q S w'"
proof (rule stock_invI)
  show "schema_ok (w_db w')"
    using stock_inv_schema [OF inv] by (simp only: eq)
  show "user_cart (w_db w') (rq_user r) = [] \<or>
        map (\<lambda>ci. (ci_product_id ci, ci_quantity ci)) (user_cart (w_db w') (rq_user r)) = [(P, Q)]"
    if "r \<in> set reqs" for r
    using stock_inv_carts [OF inv that] by (simp only: eq)
  show "cart = [] \<or> map (\<lambda>l. (cl_product_id l, cl_quantity l)) cart = [(P, Q)]"
    if "(i, cart) \<in> set (w_fetched w')" for i cart
    using that by (simp only: eq) (rule stock_inv_fetched [OF inv])
  show "stock_of (w_db w') P = Some (S - int (successes w') * Q)"
    using stock_inv_stock [OF inv] by (simp only: eq)
qed

lemma stock_inv_fetch:
  assumes inv: "stock_inv reqs P Q S w"
    and cart: "cart = [] \<or> map (\<lambda>l. (cl_product_id l, cl_quantity l)) cart = [(P, Q)]"
  shows "stock_inv reqs P Q S (w\<lparr>w_fetched := (i, cart) # w_fetched w\<rparr>)"
proof (rule stock_invI)
  let ?w' = "w\<lparr>w_fetched := (i, cart) # w_fetched w\<rparr>"
  have db: "w_db ?w' = w_db w" by simp
  have succ: "successes ?w' = successes w" by (simp add: successes_def)
  show "schema_ok (w_db ?w')"
    using stock_inv_schema [OF inv] by (simp only: db)
  show "user_cart (w_db ?w') (rq_user r) = [] \<or>
        map (\<lambda>ci. (ci_product_id ci, ci_quantity ci)) (user_cart (w_db ?w') (rq_user r)) = [(P, Q)]"
    if "r \<in> set reqs" for r
    using stock_inv_carts [OF inv that] by (simp only: db)
  show "c = [] \<or> map (\<lambda>l. (cl_product_id l, cl_quantity l)) c = [(P, Q)]"
    if "(j, c) \<in> set (w_fetched ?w')" for j c
  proof -
    from that have "(j, c) = (i, cart) \<or> (j, c) \<in> set (w_fetched w)"
      by simp
    then show ?thesis
    proof
      assume "(j, c) = (i, cart)"
      then have "c = cart" by simp
      with cart show ?thesis by (simp only:)
    next
      assume "(j, c) \<in> set (w_fetched w)"
      then show ?thesis by (rule stock_inv_fetched [OF inv])
    qed
  qed
  show "stock_of (w_db ?w') P = Some (S - int (successes ?w') * Q)"
    using stock_inv_stock [OF inv] by (simp only: db succ)
qed

lemma stock_inv_placed:
  assumes inv: "stock_inv reqs P Q S w"
    and cart: "map (\<lambda>l. (cl_product_id l, cl_quantity l)) cart = [(P, Q)]"
  shows "stock_inv reqs P Q S
           (w\<lparr>w_db := placed_db u t now cart (w_db w),
              w_responses := w_responses w @ [(i, OrderPlaced oid t)]\<rparr>)"
proof (rule stock_invI)
  let ?db' = "placed_db u t now cart (w_db w)"
  let ?w' = "w\<lparr>w_db := ?db', w_responses := w_responses w @ [(i, OrderPlaced oid t)]\<rparr>"
  have db: "w_db ?w' = ?db'" by simp
  have fetched: "w_fetched ?w' = w_fetched w" by simp
  have succ: "int (successes ?w') = int (successes w) + 1"
    by (simp add: successes_def)
  show "schema_ok (w_db ?w')"
    unfolding db using stock_inv_schema [OF inv] by (rule schema_ok_placed_db)
  show "user_cart (w_db ?w') (rq_user r) = [] \<or>
        map (\<lambda>ci. (ci_product_id ci, ci_quantity ci)) (user_cart (w_db ?w') (rq_user r)) = [(P, Q)]"
    if "r \<in> set reqs" for r
  proof (cases "rq_user r = u")
    case True
    then have "user_cart ?db' (rq_user r) = []"
      by (simp add: user_cart_placed_db)
    then show ?thesis
      unfolding db by (rule disjI1)
  next
    case False
    then have "user_cart ?db' (rq_user r) = user_cart (w_db w) (rq_user r)"
      by (simp add: user_cart_placed_db)
    with stock_inv_carts [OF inv that] show ?thesis
      unfolding db by (simp only:)
  qed
  show "c = [] \<or> map (\<lambda>l. (cl_product_id l, cl_quantity l)) c = [(P, Q)]"
    if "(j, c) \<in> set (w_fetched ?w')" for j c
    using that unfolding fetched by (rule stock_inv_fetched [OF inv])
  have "stock_of ?db' P = Some (S - int (successes w) * Q - Q)"
    by (simp only: stock_of_placed_db stock_inv_stock [OF inv] ordered_qty_single [OF cart]
        option.map)
  moreover have "S - int (successes w) * Q - Q = S - int (successes ?w') * Q"
    unfolding succ by (simp only: algebra_simps)
  ultimately show "stock_of (w_db ?w') P = Some (S - int (successes ?w') * Q)"
    unfolding db by (simp only:)
qed

lemma stock_inv_step:
  assumes inv: "stock_inv reqs P Q S w"
  shows "stock_inv reqs P Q S (step A reqs w e)"
proof (cases e)
  case (Select i)
  show ?thesis
  proof (cases "i < length reqs")
    case False
    then have "step A reqs w e = w"
      unfolding Select by simp
    with inv show ?thesis by (simp only:)
  next
    case True
    show ?thesis
    proof (cases "rq_fails (reqs ! i) 0")
      case fails: True
      let ?w' = "w\<lparr>w_responses := w_responses w @ [(i, DatabaseError)]\<rparr>"
      have w': "step A reqs w e = ?w'"
        unfolding Select using True fails by simp
      have "stock_inv reqs P Q S ?w'"
      proof (rule stock_inv_cong [OF _ _ _ inv])
        show "w_db ?w' = w_db w" by simp
        show "w_fetched ?w' = w_fetched w" by simp
        show "successes ?w' = successes w" by (simp add: successes_def)
      qed
      then show ?thesis by (simp only: w')
    next
      case ok: False
      let ?cart = "select_cart (w_db w) (rq_user (reqs ! i))"
      have w': "step A reqs w e = w\<lparr>w_fetched := (i, ?cart) # w_fetched w\<rparr>"
        unfolding Select using True ok by simp
      from True have "reqs ! i \<in> set reqs"
        by simp
      from select_cart_single [OF stock_inv_schema [OF inv] stock_inv_carts [OF inv this]]
      have "?cart = [] \<or> map (\<lambda>l. (cl_product_id l, cl_quantity l)) ?cart = [(P, Q)]" .
      from stock_inv_fetch [OF inv this] show ?thesis
        by (simp only: w')
    qed
  qed
next
  case (Finish i)
  show ?thesis
  proof (cases "i < length reqs \<and> map_of (w_fetched w) i \<noteq> None")
    case False
    then have "step A reqs w e = w"
      unfolding Finish by auto
    with inv show ?thesis by (simp only:)
  next
    case True
    then obtain cart where lt: "i < length reqs" and cart: "map_of (w_fetched w) i = Some cart"
      by auto
    let ?r = "reqs ! i"
    let ?u = "rq_user ?r"
    obtain resp db' where
      res: "place_order_after_select A (rq_fails ?r) (rq_now ?r) ?u cart (w_db w) = (resp, db')"
      by (cases "place_order_after_select A (rq_fails ?r) (rq_now ?r) ?u cart (w_db w)")
    let ?w' = "w\<lparr>w_db := db', w_responses := w_responses w @ [(i, resp)]\<rparr>"
    have w': "step A reqs w e = ?w'"
      unfolding Finish using lt cart res by simp
    from cart have "(i, cart) \<in> set (w_fetched w)"
      by (rule map_of_SomeD)
    from stock_inv_fetched [OF inv this]
    have form: "cart = [] \<or> map (\<lambda>l. (cl_product_id l, cl_quantity l)) cart = [(P, Q)]" .
    have "stock_inv reqs P Q S ?w'"
    proof (cases "is_placed resp")
      case False
      with place_order_after_select_cases [OF res] have same: "db' = w_db w"
        by auto
      show ?thesis
      proof (rule stock_inv_cong [OF _ _ _ inv])
        show "w_db ?w' = w_db w" using same by simp
        show "w_fetched ?w' = w_fetched w" by simp
        show "successes ?w' = successes w" using False by (simp add: successes_def)
      qed
    next
      case True
      with place_order_after_select_cases [OF res] obtain total_amount where
        ne: "cart \<noteq> []"
        and r: "resp = OrderPlaced (new_order_id (w_db w)) total_amount"
        and db': "db' = placed_db ?u total_amount (rq_now ?r) cart (w_db w)"
        by auto
      from ne form have "map (\<lambda>l. (cl_product_id l, cl_quantity l)) cart = [(P, Q)]"
        by blast
      from stock_inv_placed [OF inv this] show ?thesis
        unfolding r db' .
    qed
    then show ?thesis by (simp only: w')
  qed
qed

lemma stock_inv_run:
  "stock_inv reqs P Q S w \<Longrightarrow> stock_inv reqs P Q S (run A reqs events w)"
proof (induction events arbitrary: w)
  case Nil
  then show ?case by (simp only: run_Nil)
next
  case (Cons e events)
  from Cons.prems have "stock_inv reqs P Q S (step A reqs w e)"
    by (rule stock_inv_step)
  then have "stock_inv reqs P Q S (run A reqs events (step A reqs w e))"
    by (rule Cons.IH)
  then show ?case by (simp only: run_Cons)
qed

lemma stock_inv_initial:
  assumes "schema_ok db" and "stock_of db P = Some S"
    and "\<forall>r\<in>set reqs.
           map (\<lambda>ci. (ci_product_id ci, ci_quantity ci)) (user_cart db (rq_user r)) = [(P, Q)]"
  shows "stock_inv reqs P Q S (initial_world db)"
proof (rule stock_invI)
  have db: "w_db (initial_world db) = db"
    and fetched: "w_fetched (initial_world db) = []"
    and succ: "successes (initial_world db) = 0"
    by (simp_all add: initial_world_def successes_def)
  show "schema_ok (w_db (initial_world db))"
    using assms(1) by (simp only: db)
  show "user_cart (w_db (initial_world db)) (rq_user r) = [] \<or>
        map (\<lambda>ci. (ci_product_id ci, ci_quantity ci))
          (user_cart (w_db (initial_world db)) (rq_user r)) = [(P, Q)]"
    if "r \<in> set reqs" for r
    unfolding db using assms(3) that by blast
  show "c = [] \<or> map (\<lambda>l. (cl_product_id l, cl_quantity l)) c = [(P, Q)]"
    if "(j, c) \<in> set (w_fetched (initial_world db))" for j c
    using that by (simp add: fetched)
  show "stock_of (w_db (initial_world db)) P = Some (S - int (successes (initial_world db)) * Q)"
    using assms(2) by (simp add: db succ)
qed

lemma serial_inv_step:
  assumes inv: "serial_inv reqs P Q S k w"
    and k: "k < length reqs"
  shows "serial_inv reqs P Q S (Suc k) (run A reqs [Select k, Finish k] w)"
proof -
  let ?r = "reqs ! k"
  let ?u = "rq_user ?r"
  let ?db = "w_db w"
  let ?w' = "run A reqs [Select k, Finish k] w"
  let ?s = "S - int (successes w) * Q"
  obtain resp db' where
    res: "place_order A (rq_fails ?r) (rq_now ?r) ?u ?db = (resp, db')"
    by (cases "place_order A (rq_fails ?r) (rq_now ?r) ?u ?db")
  from inv have sinv: "stock_inv reqs P Q S w"
    and fetched: "fst ` set (w_fetched w) \<subseteq> {..<k}"
    and nonneg: "0 \<le> ?s"
    by (simp_all add: serial_inv_def)
  note schema = stock_inv_schema [OF sinv]
  note stock = stock_inv_stock [OF sinv]
  have none: "map_of (w_fetched w) k = None"
    using fetched by (auto simp: map_of_eq_None_iff)
  note st = serial_step [OF k none, of A]
  have resp_w': "w_responses ?w' = w_responses w @ [(k, resp)]"
    using st(2) res by simp
  have succ: "int (successes ?w') = int (successes w) + (if is_placed resp then 1 else 0)"
    unfolding successes_def resp_w' by simp
  have "fst ` set (w_fetched ?w') \<subseteq> insert k {..<k}"
    using st(3) fetched by blast
  then have fetched': "fst ` set (w_fetched ?w') \<subseteq> {..<Suc k}"
    by (simp add: lessThan_Suc)
  have sinv': "stock_inv reqs P Q S ?w'"
    using sinv by (rule stock_inv_run)
  have nonneg': "0 \<le> S - int (successes ?w') * Q"
  proof (cases "is_placed resp")
    case False
    with nonneg show ?thesis
      unfolding succ by simp
  next
    case True
    let ?cart = "select_cart ?db ?u"
    from True place_order_cases [OF res] obtain total_amount where
      ne: "?cart \<noteq> []"
      and chk: "check_stock A ?cart (amt_zero A) = Inr total_amount"
      by auto
    from k have "?r \<in> set reqs"
      by simp
    have "?cart = [] \<or> map (\<lambda>l. (cl_product_id l, cl_quantity l)) ?cart = [(P, Q)]"
      using schema stock_inv_carts [OF sinv \<open>?r \<in> set reqs\<close>] by (rule select_cart_single)
    then have "map (\<lambda>l. (cl_product_id l, cl_quantity l)) ?cart = [(P, Q)]"
    proof
      assume "?cart = []"
      with ne show ?thesis by contradiction
    qed
    then obtain l where l: "?cart = [l]" "cl_product_id l = P" "cl_quantity l = Q"
      by auto
    then have l_in: "l \<in> set ?cart"
      by simp
    from stock_of_line [OF schema l_in] stock l(2) have "cl_stock l = ?s"
      by simp
    moreover from check_stock_Inr [OF chk] l_in have "cl_quantity l \<le> cl_stock l"
      by blast
    ultimately have "Q \<le> ?s"
      using l(3) by simp
    with True show ?thesis
      unfolding succ by (simp add: algebra_simps)
  qed
  from sinv' fetched' nonneg' show ?thesis
    by (simp only: serial_inv_def simp_thms)
qed

lemma serial_inv_run:
  assumes "serial_inv reqs P Q S 0 w" and "k \<le> length reqs"
  shows "serial_inv reqs P Q S k (run A reqs (serial_schedule k) w)"
  using assms(2)
proof (induction k)
  case 0
  with assms(1) show ?case
    by (simp add: serial_schedule_def run_Nil)
next
  case (Suc k)
  then have "serial_inv reqs P Q S k (run A reqs (serial_schedule k) w)" and "k < length reqs"
    by simp_all
  from serial_inv_step [OF this] show ?case
    by (simp add: serial_schedule_Suc run_append)
qed

lemma last_copies_overlapping_run:
  "run exact_ops last_copies_requests [Select 0, Select 1, Finish 0, Finish 1]
     (initial_world last_copies_db) =
   \<lparr>w_db = placed_db 2 50 ''2024-01-01 10:00:00''
             [\<lparr>cl_product_id = 1, cl_quantity = 5, cl_price = 10, cl_stock = 5\<rparr>]
             (placed_db 1 50 ''2024-01-01 10:00:00''
                [\<lparr>cl_product_id = 1, cl_quantity = 5, cl_price = 10, cl_stock = 5\<rparr>]
                last_copies_db),
    w_fetched = [(1, [\<lparr>cl_product_id = 1, cl_quantity = 5, cl_price = 10, cl_stock = 5\<rparr>]),
                 (0, [\<lparr>cl_product_id = 1, cl_quantity = 5, cl_price = 10, cl_stock = 5\<rparr>])],
    w_responses = [(0, OrderPlaced (new_order_id last_copies_db) 50),
                   (1, OrderPlaced
                         (new_order_id
                            (placed_db 1 50 ''2024-01-01 10:00:00''
                               [\<lparr>cl_product_id = 1, cl_quantity = 5, cl_price = 10,
                                  cl_stock = 5\<rparr>]
                               last_copies_db)) 50)]\<rparr>"
  by (simp add: run_Cons run_Nil initial_world_def last_copies_requests_def
      last_copies_cart last_copies_placed never_fails_def)

text \<open>
  C1, amended. Let a product have stock \<open>S \<ge> 0\<close>, and let every request come from a user
  whose cart holds that product alone, with quantity \<open>Q > 0\<close>. Then, whatever calls fail
  on the connections:
  \<^item> however the invocations overlap (for every list of steps), the stock at the end is
    \<open>S\<close> minus \<open>Q\<close> times the number of orders placed;
  \<^item> when the \<open>K\<close> requests are served one after the other, each SELECT coming after
    the commit or rollback of the request before, the number of orders placed is at most
    \<open>S div Q\<close> and the stock at the end is not negative.
\<close>

theorem placements_account_for_stock:
  assumes "schema_ok db" and "stock_of db P = Some S" and "0 \<le> S" and "0 < Q"
    and "\<forall>r\<in>set reqs.
           map (\<lambda>ci. (ci_product_id ci, ci_quantity ci)) (user_cart db (rq_user r)) = [(P, Q)]"
  shows "stock_of (w_db (run A reqs events (initial_world db))) P =
           Some (S - int (successes (run A reqs events (initial_world db))) * Q) \<and>
         int (successes (run A reqs (serial_schedule (length reqs)) (initial_world db)))
           \<le> S div Q \<and>
         0 \<le> S - int (successes (run A reqs (serial_schedule (length reqs))
                                   (initial_world db))) * Q"
proof -
  let ?W = "run A reqs (serial_schedule (length reqs)) (initial_world db)"
  have init: "stock_inv reqs P Q S (initial_world db)"
    using assms(1,2,5) by (rule stock_inv_initial)
  have "stock_inv reqs P Q S (run A reqs events (initial_world db))"
    using init by (rule stock_inv_run)
  then have any: "stock_of (w_db (run A reqs events (initial_world db))) P =
           Some (S - int (successes (run A reqs events (initial_world db))) * Q)"
    by (rule stock_inv_stock)
  have "successes (initial_world db) = 0" "w_fetched (initial_world db) = []"
    by (simp_all add: initial_world_def successes_def)
  with init assms(3) have "serial_inv reqs P Q S 0 (initial_world db)"
    by (simp add: serial_inv_def)
  from serial_inv_run [OF this, of "length reqs" A]
  have "serial_inv reqs P Q S (length reqs) ?W"
    by simp
  then have nonneg: "0 \<le> S - int (successes ?W) * Q"
    by (simp add: serial_inv_def)
  from div_bound [OF assms(4) nonneg] any nonneg show ?thesis
    by (intro conjI)
qed

theorem placements_account_for_stock_witness:
  "schema_ok last_copies_db \<and> stock_of last_copies_db 1 = Some 5 \<and> (0::int) \<le> 5 \<and> (0::int) < 5 \<and>
   list_all (\<lambda>r. map (\<lambda>ci. (ci_product_id ci, ci_quantity ci))
                     (user_cart last_copies_db (rq_user r)) = [(1, 5)])
     last_copies_requests \<and>
   stock_of (w_db (run exact_ops last_copies_requests [Select 0, Select 1, Finish 0, Finish 1]
                     (initial_world last_copies_db))) 1 = Some (5 - 2 * 5) \<and>
   successes (run exact_ops last_copies_requests (serial_schedule 2)
                (initial_world last_copies_db)) = 1 \<and>
   int (successes (run exact_ops last_copies_requests (serial_schedule 2)
                     (initial_world last_copies_db))) \<le> 5 div 5 \<and>
   stock_of (w_db (run exact_ops last_copies_requests (serial_schedule 2)
                     (initial_world last_copies_db))) 1 = Some 0"
proof -
  let ?W = "run exact_ops last_copies_requests (serial_schedule 2) (initial_world last_copies_db)"
  let ?V = "run exact_ops last_copies_requests [Select 0, Select 1, Finish 0, Finish 1]
              (initial_world last_copies_db)"
  let ?line = "\<lparr>cl_product_id = 1, cl_quantity = 5, cl_price = 10::int, cl_stock = 5\<rparr>"
  let ?db1 = "placed_db 1 50 ''2024-01-01 10:00:00'' [?line] last_copies_db"
  have h1: "schema_ok last_copies_db"
    by (simp add: schema_ok_def last_copies_db_def sample_product_def)
  have h3: "(0::int) \<le> 5" and h4: "(0::int) < 5"
    by simp_all
  have h5: "\<forall>r\<in>set last_copies_requests.
      map (\<lambda>ci. (ci_product_id ci, ci_quantity ci)) (user_cart last_copies_db (rq_user r))
        = [(1, 5)]"
    by (simp add: last_copies_requests_def last_copies_defs)
  have len: "length last_copies_requests = 2"
    by (simp add: last_copies_requests_def)
  have sched: "serial_schedule 2 = [Select 0, Finish 0, Select 1, Finish 1]"
    by (simp add: serial_schedule_def numeral_2_eq_2)
  have cart2: "select_cart ?db1 2 =
      [\<lparr>cl_product_id = 1, cl_quantity = 5, cl_price = 10, cl_stock = 0\<rparr>]"
    by (simp add: select_cart_def user_cart_placed_db placed_db_products join_row_def)
       (simp add: last_copies_defs)
  have rej: "place_order_after_select exact_ops never_fails now 2
               [\<lparr>cl_product_id = 1, cl_quantity = 5, cl_price = 10, cl_stock = 0\<rparr>] ?db1 =
             (NotEnoughStock 1 0, ?db1)" for now
    by (rule place_order_after_select_rejects) simp_all
  have "w_responses ?W = [(0, OrderPlaced (new_order_id last_copies_db) 50),
                          (1, NotEnoughStock 1 0)]"
    by (simp add: sched run_Cons run_Nil initial_world_def last_copies_requests_def
        last_copies_cart last_copies_placed cart2 rej never_fails_def)
  then have one: "successes ?W = 1"
    by (simp add: successes_def)
  have two: "successes ?V = 2"
    unfolding last_copies_overlapping_run by (simp add: successes_def)
  note inst = placements_account_for_stock [OF h1 last_copies_stock h3 h4 h5, of exact_ops]
  have serial: "int (successes ?W) \<le> 5 div 5"
    using inst [of "[]"] by (simp only: len)
  have stock_serial: "stock_of (w_db ?W) 1 = Some 0"
    using inst [of "serial_schedule 2"] by (simp add: one)
  have stock_overlap: "stock_of (w_db ?V) 1 = Some (5 - 2 * 5)"
    using inst [of "[Select 0, Select 1, Finish 0, Finish 1]"] by (simp only: two) simp
  from h1 h5 last_copies_stock one serial stock_serial stock_overlap show ?thesis
    by (simp add: list_all_iff)
qed

end
